theory Spec2Isabelle
  imports Main "HOL-Library.Log_Nat"
begin

section \<open>Python string primitives used by the application\<close>

text \<open>
  A Python \<open>str\<close> is a sequence of code points. The model uses \<open>string\<close>, so one
  \<open>char\<close> stands for one code point and the code points covered are those below 256.
  On that range \<open>str.isspace\<close> holds for TAB..CR, FS..US, SPACE, NEL and NBSP.
\<close>

definition py_isspace :: "char \<Rightarrow> bool" where
  "py_isspace c =
     (let n = (of_char c :: nat)
      in (9 \<le> n \<and> n \<le> 13) \<or> (28 \<le> n \<and> n \<le> 32) \<or> n = 133 \<or> n = 160)"

text \<open>\<open>s.strip()\<close>: leading and trailing whitespace removed.\<close>

definition py_strip :: "string \<Rightarrow> string" where
  "py_strip s = rev (dropWhile py_isspace (rev (dropWhile py_isspace s)))"

text \<open>\<open>s.startswith(sub)\<close>.\<close>

definition startswith :: "string \<Rightarrow> string \<Rightarrow> bool" where
  "startswith s sub = (take (length sub) s = sub)"

text \<open>
  \<open>s.find(sub)\<close>: the lowest index at which \<open>sub\<close> occurs, \<open>-1\<close> when it does not.
  The auxiliary function scans the suffix that begins at index \<open>i\<close>.
\<close>

fun find_from :: "string \<Rightarrow> string \<Rightarrow> nat \<Rightarrow> int" where
  "find_from sub [] i = (if sub = [] then int i else - 1)"
| "find_from sub (c # cs) i =
     (if startswith (c # cs) sub then int i else find_from sub cs (Suc i))"

definition py_find :: "string \<Rightarrow> string \<Rightarrow> int" where
  "py_find s sub = find_from sub s 0"

text \<open>\<open>s.rfind(sub)\<close>: the highest index at which \<open>sub\<close> occurs, \<open>-1\<close> when it does not.\<close>

fun rfind_from :: "string \<Rightarrow> string \<Rightarrow> nat \<Rightarrow> int" where
  "rfind_from sub [] i = (if sub = [] then int i else - 1)"
| "rfind_from sub (c # cs) i =
     (let r = rfind_from sub cs (Suc i)
      in if r \<noteq> - 1 then r
         else if startswith (c # cs) sub then int i else - 1)"

definition py_rfind :: "string \<Rightarrow> string \<Rightarrow> int" where
  "py_rfind s sub = rfind_from sub s 0"

text \<open>\<open>sub in s\<close> on strings: substring containment.\<close>

definition py_in :: "string \<Rightarrow> string \<Rightarrow> bool" where
  "py_in sub s = (py_find s sub \<noteq> - 1)"

text \<open>
  \<open>s.replace(old, new)\<close>: every non-overlapping occurrence of \<open>old\<close>, found from the
  left, is replaced; an empty \<open>old\<close> matches before every character and at the end.
\<close>

function py_replace :: "string \<Rightarrow> string \<Rightarrow> string \<Rightarrow> string" where
  "py_replace old new [] = (if old = [] then new else [])"
| "py_replace old new (c # cs) =
     (if old = [] then new @ c # py_replace old new cs
      else if startswith (c # cs) old
        then new @ py_replace old new (drop (length old) (c # cs))
        else c # py_replace old new cs)"
  by pat_completeness auto
termination
  by (relation "measure (\<lambda>(old, new, s). length s)") auto

text \<open>
  \<open>s[a:b]\<close> with both bounds given: a negative bound counts from the end, and both
  are clamped to the string; the result is empty when the bounds cross.
\<close>

definition py_slice :: "string \<Rightarrow> int \<Rightarrow> int \<Rightarrow> string" where
  "py_slice s a b =
     (let n = int (length s);
          clamp = (\<lambda>i. if i < 0 then max 0 (i + n) else min i n);
          lo = clamp a;
          hi = clamp b
      in take (nat (hi - lo)) (drop (nat lo) s))"

section \<open>Response extraction: \<open>clean_gemini_json\<close>\<close>

text \<open>
  The first two steps of \<open>clean_gemini_json\<close>: strip the text, then, when a fence
  marker occurs in it, remove every \<open>```json\<close> and after that every \<open>```\<close>.
\<close>

definition unfenced :: "string \<Rightarrow> string" where
  "unfenced raw =
     (let text = py_strip raw
      in if py_in ''```'' text
         then py_replace ''```'' '''' (py_replace ''```json'' '''' text)
         else text)"

text \<open>
  The bounds chosen by \<open>clean_gemini_json\<close>: \<open>start\<close> and \<open>end\<close> stay \<open>-1\<close> unless
  the object branch or the array branch assigns them.
\<close>

definition bounds :: "string \<Rightarrow> int \<times> int" where
  "bounds text =
     (let start_brace = py_find text ''{'';
          start_bracket = py_find text ''[''
      in if start_brace \<noteq> - 1 \<and> (start_bracket = - 1 \<or> start_brace < start_bracket)
         then (start_brace, py_rfind text ''}'')
         else if start_bracket \<noteq> - 1
         then (start_bracket, py_rfind text '']'')
         else (- 1, - 1))"

definition clean_gemini_json :: "string \<Rightarrow> string" where
  "clean_gemini_json raw =
     (let text = unfenced raw;
          (start, end) = bounds text
      in if start \<noteq> - 1 \<and> end \<noteq> - 1
         then py_slice text start (end + 1)
         else text)"

section \<open>Further string and number primitives\<close>

text \<open>
  \<open>str.lower\<close> on code points below 256: \<open>A..Z\<close> and the Latin-1 capitals
  \<open>0xC0..0xDE\<close> (the multiplication sign excepted) move up by 32.
\<close>

definition py_lower_char :: "char \<Rightarrow> char" where
  "py_lower_char c =
     (let n = (of_char c :: nat)
      in if (65 \<le> n \<and> n \<le> 90) \<or> (192 \<le> n \<and> n \<le> 222 \<and> n \<noteq> 215)
         then char_of (n + 32) else c)"

definition py_lower :: "string \<Rightarrow> string" where
  "py_lower s = map py_lower_char s"

text \<open>\<open>str(n)\<close> for an integer: its decimal digits, with a minus sign when negative.\<close>

definition digit_char :: "nat \<Rightarrow> char" where
  "digit_char d = char_of (48 + d)"

function str_nat :: "nat \<Rightarrow> string" where
  "str_nat n = (if n < 10 then [digit_char n] else str_nat (n div 10) @ [digit_char (n mod 10)])"
  by pat_completeness auto
termination
  by (relation "measure id") auto

definition py_str_int :: "int \<Rightarrow> string" where
  "py_str_int i = (if i < 0 then ''-'' @ str_nat (nat (- i)) else str_nat (nat i))"

text \<open>
  The interpreter limits conversions between integers and decimal strings to 4300 digits
  and raises \<open>ValueError\<close> beyond. The integers the program formats are list indices and
  numbers below \<open>2 ^ 1024\<close>, the count of \<open>generate_flashcards_logic\<close> excepted, which
  checks \<open>digits_exceeded\<close>; \<open>int\<close> checks the length of its argument.
\<close>

definition max_str_digits :: nat where
  "max_str_digits = 4300"

definition digits_exceeded :: "int \<Rightarrow> bool" where
  "digits_exceeded i = (max_str_digits < length (str_nat (nat \<bar>i\<bar>)))"

section \<open>Binary floating point\<close>

text \<open>
  A finite double is written \<open>(m, e)\<close> for the value \<open>m * 2 ^ e\<close>. Every operation
  computes the exact result and rounds it to 53 significant bits, ties to even, as
  IEEE 754 arithmetic does. The exponent range is not represented: the scores computed
  below have exponents of at least \<open>-55\<close> and magnitudes of at most \<open>2 ^ 53\<close>, and the
  conversion from an integer checks the upper bound itself.
\<close>

type_synonym double = "int \<times> int"

definition round53 :: "double \<Rightarrow> double" where
  "round53 x =
     (case x of (m, e) \<Rightarrow>
        let k = bitlen \<bar>m\<bar>
        in if k \<le> 53 then (m, e)
           else let s = nat (k - 53);
                    q = \<bar>m\<bar> div 2 ^ s;
                    r = \<bar>m\<bar> mod 2 ^ s;
                    q' = (if 2 * r > 2 ^ s \<or> (2 * r = 2 ^ s \<and> odd q) then q + 1 else q)
                in (sgn m * q', e + int s))"

definition fadd :: "double \<Rightarrow> double \<Rightarrow> double" where
  "fadd x y =
     (case (x, y) of ((m1, e1), (m2, e2)) \<Rightarrow>
        let e = min e1 e2
        in round53 (m1 * 2 ^ nat (e1 - e) + m2 * 2 ^ nat (e2 - e), e))"

definition fsub :: "double \<Rightarrow> double \<Rightarrow> double" where
  "fsub x y = fadd x (- fst y, snd y)"

text \<open>The literals \<open>0.0\<close>, \<open>1.0\<close> and \<open>0.1\<close>; the last is \<open>0x1.999999999999ap-4\<close>.\<close>

definition d_zero :: double where "d_zero = (0, 0)"
definition d_one :: double where "d_one = (1, 0)"
definition d_tenth :: double where "d_tenth = (3602879701896397, - 55)"

text \<open>
  \<open>f"{x:.2f}"\<close>: the exact value rounded to two decimals, ties to even; a negative value
  keeps its sign when it rounds to zero.
\<close>

definition two_digits :: "nat \<Rightarrow> string" where
  "two_digits n = [digit_char (n div 10 mod 10), digit_char (n mod 10)]"

definition format_2f :: "double \<Rightarrow> string" where
  "format_2f x =
     (case x of (m, e) \<Rightarrow>
        let num = \<bar>m\<bar> * 100 * 2 ^ nat e;
            den = 2 ^ nat (- e);
            q = num div den;
            r = num mod den;
            n = nat (if 2 * r > den \<or> (2 * r = den \<and> odd q) then q + 1 else q)
        in (if m < 0 then ''-'' else '''') @ str_nat (n div 100) @ ''.'' @ two_digits (n mod 100))"

section \<open>JSON values and the operations applied to them\<close>

text \<open>
  The values produced by \<open>json.loads\<close> and kept in the session. An object lists the
  items of the dictionary in order, its keys distinct.
\<close>

datatype json =
    JNull
  | JBool bool
  | JInt int
  | JFloat double
  | JStr string
  | JArr "json list"
  | JObj "(string \<times> json) list"

text \<open>
  The exceptions of the program. The two \<open>RuntimeError\<close>s that wrap a cause keep it;
  \<open>Formato_imprevisto\<close> is the \<open>RuntimeError\<close> for a missing \<open>questions\<close> key.
\<close>

datatype error =
    KeyError
  | IndexError
  | TypeError
  | AttributeError
  | ValueError
  | OverflowError
  | RequestException
  | JSONDecodeError
  | UnboundLocalError
  | DatabaseError
  | Formato_imprevisto
  | Errore_parsing_Gemini error
  | Errore_generazione_flashcard error

text \<open>\<open>v[k]\<close> for a string key \<open>k\<close>, the truth value of \<open>v\<close>, iteration, \<open>len\<close> and \<open>v.lower()\<close>.\<close>

definition subscript :: "json \<Rightarrow> string \<Rightarrow> error + json" where
  "subscript v k =
     (case v of
        JObj kvs \<Rightarrow> (case map_of kvs k of Some x \<Rightarrow> Inr x | None \<Rightarrow> Inl KeyError)
      | _ \<Rightarrow> Inl TypeError)"

definition truthy :: "json \<Rightarrow> bool" where
  "truthy v =
     (case v of
        JNull \<Rightarrow> False
      | JBool b \<Rightarrow> b
      | JInt i \<Rightarrow> i \<noteq> 0
      | JFloat x \<Rightarrow> fst x \<noteq> 0
      | JStr s \<Rightarrow> s \<noteq> []
      | JArr xs \<Rightarrow> xs \<noteq> []
      | JObj kvs \<Rightarrow> kvs \<noteq> [])"

definition py_iter :: "json \<Rightarrow> error + json list" where
  "py_iter v =
     (case v of
        JArr xs \<Rightarrow> Inr xs
      | JObj kvs \<Rightarrow> Inr (map (\<lambda>kv. JStr (fst kv)) kvs)
      | JStr s \<Rightarrow> Inr (map (\<lambda>c. JStr [c]) s)
      | _ \<Rightarrow> Inl TypeError)"

definition py_len :: "json \<Rightarrow> error + int" where
  "py_len v =
     (case v of
        JArr xs \<Rightarrow> Inr (int (length xs))
      | JObj kvs \<Rightarrow> Inr (int (length kvs))
      | JStr s \<Rightarrow> Inr (int (length s))
      | _ \<Rightarrow> Inl TypeError)"

definition str_lower :: "json \<Rightarrow> error + string" where
  "str_lower v = (case v of JStr s \<Rightarrow> Inr (py_lower s) | _ \<Rightarrow> Inl AttributeError)"

section \<open>Grading: \<open>submit_quiz\<close>\<close>

text \<open>One entry of \<open>details\<close>, and the variables the grading loop updates.\<close>

record detail =
  "text" :: json
  user_answer :: string
  correct_answer :: json
  result :: string

record tally =
  score :: double
  correct :: int
  wrong :: int
  blank :: int
  details :: "detail list"

text \<open>\<open>request.form.get(k, dflt)\<close>.\<close>

definition form_get :: "(string \<rightharpoonup> string) \<Rightarrow> string \<Rightarrow> string \<Rightarrow> string" where
  "form_get form k dflt = (case form k of Some v \<Rightarrow> v | None \<Rightarrow> dflt)"

text \<open>
  The comparison of a non-empty answer: exact for \<open>qtype == "mcq"\<close>, on the lowered
  strings for any other \<open>qtype\<close>.
\<close>

definition is_correct_of :: "json \<Rightarrow> string \<Rightarrow> error + bool" where
  "is_correct_of q ans =
     (case subscript q ''qtype'' of
        Inl e \<Rightarrow> Inl e
      | Inr qtype \<Rightarrow>
          if qtype = JStr ''mcq''
          then (case subscript q ''answer'' of
                  Inl e \<Rightarrow> Inl e
                | Inr a \<Rightarrow> Inr (JStr ans = a))
          else (case subscript q ''answer'' of
                  Inl e \<Rightarrow> Inl e
                | Inr a \<Rightarrow>
                    (case str_lower a of
                       Inl e \<Rightarrow> Inl e
                     | Inr low \<Rightarrow> Inr (py_lower ans = low))))"

text \<open>\<open>details.append({...})\<close>: the values are read in the order text, answer.\<close>

definition append_detail :: "json \<Rightarrow> string \<Rightarrow> string \<Rightarrow> tally \<Rightarrow> error + tally" where
  "append_detail q ans res t =
     (case subscript q ''text'' of
        Inl e \<Rightarrow> Inl e
      | Inr tx \<Rightarrow>
          (case subscript q ''answer'' of
             Inl e \<Rightarrow> Inl e
           | Inr a \<Rightarrow>
               Inr (t\<lparr>details := details t @
                      [\<lparr>text = tx, user_answer = ans, correct_answer = a, result = res\<rparr>]\<rparr>)))"

text \<open>One pass of the loop body for the question at index \<open>i\<close>, and the loop.\<close>

definition grade_question :: "(string \<rightharpoonup> string) \<Rightarrow> nat \<Rightarrow> json \<Rightarrow> tally \<Rightarrow> error + tally" where
  "grade_question form i q t =
     (let ans = py_strip (form_get form (''q'' @ py_str_int (int i)) '''')
      in if ans = []
         then append_detail q ans ''blank'' (t\<lparr>blank := blank t + 1\<rparr>)
         else (case is_correct_of q ans of
                 Inl e \<Rightarrow> Inl e
               | Inr is_correct \<Rightarrow>
                   if is_correct
                   then append_detail q ans ''correct''
                          (t\<lparr>score := fadd (score t) d_one, correct := correct t + 1\<rparr>)
                   else append_detail q ans ''wrong''
                          (t\<lparr>score := fsub (score t) d_tenth, wrong := wrong t + 1\<rparr>)))"

fun grade_loop :: "(string \<rightharpoonup> string) \<Rightarrow> nat \<Rightarrow> json list \<Rightarrow> tally \<Rightarrow> error + tally" where
  "grade_loop form i [] t = Inr t"
| "grade_loop form i (q # qs) t =
     (case grade_question form i q t of
        Inl e \<Rightarrow> Inl e
      | Inr t' \<Rightarrow> grade_loop form (Suc i) qs t')"

section \<open>Generation: \<open>generate_quiz_logic\<close> and \<open>generate_flashcards_logic\<close>\<close>

text \<open>
  \<open>v[0]\<close>, and the path \<open>["candidates"][0]["content"]["parts"][0]["text"]\<close> into the
  body of the reply.
\<close>

definition index0 :: "json \<Rightarrow> error + json" where
  "index0 v =
     (case v of
        JArr xs \<Rightarrow> (case xs of [] \<Rightarrow> Inl IndexError | x # _ \<Rightarrow> Inr x)
      | JStr s \<Rightarrow> (case s of [] \<Rightarrow> Inl IndexError | c # _ \<Rightarrow> Inr (JStr [c]))
      | JObj kvs \<Rightarrow> Inl KeyError
      | _ \<Rightarrow> Inl TypeError)"

definition bind :: "error + 'a \<Rightarrow> ('a \<Rightarrow> error + 'b) \<Rightarrow> error + 'b" where
  "bind r f = (case r of Inl e \<Rightarrow> Inl e | Inr x \<Rightarrow> f x)"

definition candidate_text :: "json \<Rightarrow> error + json" where
  "candidate_text body =
     bind (subscript body ''candidates'') (\<lambda>a.
     bind (index0 a) (\<lambda>b.
     bind (subscript b ''content'') (\<lambda>c.
     bind (subscript c ''parts'') (\<lambda>d.
     bind (index0 d) (\<lambda>e.
     subscript e ''text'')))))"

text \<open>\<open>clean_gemini_json\<close> applied to a value: \<open>strip\<close> exists on strings only.\<close>

definition clean_value :: "json \<Rightarrow> error + string" where
  "clean_value v = (case v of JStr s \<Rightarrow> Inr (clean_gemini_json s) | _ \<Rightarrow> Inl AttributeError)"

text \<open>
  The completion service and \<open>json.loads\<close> are parameters. A request either fails
  (\<open>requests.post\<close> or \<open>raise_for_status\<close> raises) or has a body, \<open>None\<close> when the body is
  not JSON.
\<close>

datatype reply = Request_failed | Body "json option"

record service =
  post :: "string \<Rightarrow> reply"
  loads :: "string \<Rightarrow> json option"

definition dq :: char where "dq = CHR 0x22"

definition nl :: char where "nl = CHR 0x0A"

fun join_lines :: "string list \<Rightarrow> string" where
  "join_lines [] = []"
| "join_lines [l] = l"
| "join_lines (l # m # ls) = l @ [nl] @ join_lines (m # ls)"

text \<open>
  \<open>math.ceil(num_questions * 0.5)\<close>: the integer becomes a double (an
  \<open>OverflowError\<close> from \<open>2 ^ 1024\<close> on), halving is exact, and the ceiling is an integer.
\<close>

definition int_to_float :: "int \<Rightarrow> error + double" where
  "int_to_float n =
     (let x = round53 (n, 0)
      in if \<bar>fst x\<bar> * 2 ^ nat (snd x) \<ge> 2 ^ 1024 then Inl OverflowError else Inr x)"

definition times_half :: "double \<Rightarrow> double" where
  "times_half x = (fst x, snd x - 1)"

definition math_ceil :: "double \<Rightarrow> int" where
  "math_ceil x =
     (case x of (m, e) \<Rightarrow>
        if 0 \<le> e then m * 2 ^ nat e else - ((- m) div 2 ^ nat (- e)))"

definition desired_mcq :: "int \<Rightarrow> error + int" where
  "desired_mcq num_questions =
     (case int_to_float num_questions of
        Inl e \<Rightarrow> Inl e
      | Inr x \<Rightarrow> Inr (math_ceil (times_half x)))"

definition desired_open :: "int \<Rightarrow> error + int" where
  "desired_open num_questions =
     (case desired_mcq num_questions of
        Inl e \<Rightarrow> Inl e
      | Inr m \<Rightarrow> Inr (num_questions - m))"

text \<open>The two prompts, line by line.\<close>

definition full_prompt :: "string \<Rightarrow> int \<Rightarrow> int \<Rightarrow> int \<Rightarrow> string" where
  "full_prompt program_text num_questions mcq opn =
     join_lines
      ['''',
       ''    Sei un generatore di quiz in italiano per studenti universitari.'',
       ''    Crea domande a partire dal testo fornito.'',
       ''    '',
       ''    OBIETTIVO:'',
       ''    - Genera ESATTAMENTE '' @ py_str_int num_questions @ '' domande.'',
       ''    - Circa '' @ py_str_int mcq @ '' domande devono essere a risposta multipla ('' @ [dq] @ ''mcq'' @ [dq] @ '').'',
       ''    - Circa '' @ py_str_int opn @ '' domande devono essere a completamento ('' @ [dq] @ ''open'' @ [dq] @ '') con una sola parola.'',
       ''    - NO formule, solo teoria.'',
       '''',
       ''    FORMATO DI USCITA (JSON PURO):'',
       ''    {'',
       ''      '' @ [dq] @ ''questions'' @ [dq] @ '': ['',
       ''        {'',
       ''          '' @ [dq] @ ''text'' @ [dq] @ '': '' @ [dq] @ ''domanda...'' @ [dq] @ '','',
       ''          '' @ [dq] @ ''qtype'' @ [dq] @ '': '' @ [dq] @ ''mcq'' @ [dq] @ '','',
       ''          '' @ [dq] @ ''options'' @ [dq] @ '': ['' @ [dq] @ ''A'' @ [dq] @ '', '' @ [dq] @ ''B'' @ [dq] @ '', '' @ [dq] @ ''C'' @ [dq] @ '', '' @ [dq] @ ''D'' @ [dq] @ ''],'',
       ''          '' @ [dq] @ ''answer'' @ [dq] @ '': '' @ [dq] @ ''A'' @ [dq],
       ''        },'',
       ''        {'',
       ''          '' @ [dq] @ ''text'' @ [dq] @ '': '' @ [dq] @ ''domanda...'' @ [dq] @ '','',
       ''          '' @ [dq] @ ''qtype'' @ [dq] @ '': '' @ [dq] @ ''open'' @ [dq] @ '','',
       ''          '' @ [dq] @ ''options'' @ [dq] @ '': null,'',
       ''          '' @ [dq] @ ''answer'' @ [dq] @ '': '' @ [dq] @ ''parola_singola'' @ [dq],
       ''        }'',
       ''      ]'',
       ''    }'',
       ''    '',
       ''    Non aggiungere altro testo prima o dopo il JSON.'',
       '''',
       ''    TESTO:'',
       ''    '' @ program_text,
       ''    '']"

definition flashcards_prompt :: "string \<Rightarrow> int \<Rightarrow> string" where
  "flashcards_prompt program_text num_cards =
     join_lines
      ['''',
       ''    Crea '' @ py_str_int num_cards @ '' flashcard basate su questo testo: '' @ [dq] @ program_text @ [dq] @ ''.'',
       ''    '',
       ''    STRUTTURA RICHIESTA (JSON ARRAY):'',
       ''    ['',
       ''        {'' @ [dq] @ ''front'' @ [dq] @ '': '' @ [dq] @ ''Domanda o Concetto'' @ [dq] @ '', '' @ [dq] @ ''back'' @ [dq] @ '': '' @ [dq] @ ''Risposta o Definizione'' @ [dq] @ ''},'',
       ''        {'' @ [dq] @ ''front'' @ [dq] @ '': '' @ [dq] @ ''...'' @ [dq] @ '', '' @ [dq] @ ''back'' @ [dq] @ '': '' @ [dq] @ ''...'' @ [dq] @ ''}'',
       ''    ]'',
       ''    '',
       ''    Output SOLO JSON valido. Niente testo introduttivo.'',
       ''    '']"

text \<open>
  Lines 133 to 138 on the parsed value: a list is returned; otherwise \<open>"questions" in
  parsed\<close> is a key test on a dictionary, a substring test on a string and a
  \<open>TypeError\<close> on anything else, and \<open>parsed["questions"]\<close> follows.
\<close>

definition parse_questions :: "json \<Rightarrow> error + json" where
  "parse_questions parsed =
     (case parsed of
        JArr xs \<Rightarrow> Inr (JArr xs)
      | JObj kvs \<Rightarrow>
          (if ''questions'' \<in> set (map fst kvs)
           then subscript parsed ''questions''
           else Inl Formato_imprevisto)
      | JStr s \<Rightarrow>
          (if py_in ''questions'' s
           then subscript parsed ''questions''
           else Inl Formato_imprevisto)
      | _ \<Rightarrow> Inl TypeError)"

definition json_loads :: "service \<Rightarrow> string \<Rightarrow> error + json" where
  "json_loads svc s = (case loads svc s of None \<Rightarrow> Inl JSONDecodeError | Some v \<Rightarrow> Inr v)"

text \<open>
  The \<open>try\<close> block of \<open>generate_quiz_logic\<close>. When reading the text out of the reply
  fails, the handler's \<open>print\<close> reads the unassigned variable \<open>text\<close>.
\<close>

definition quiz_from_body :: "service \<Rightarrow> json option \<Rightarrow> error + json" where
  "quiz_from_body svc body =
     (case (case body of None \<Rightarrow> Inl JSONDecodeError | Some b \<Rightarrow> candidate_text b) of
        Inl e \<Rightarrow> Inl UnboundLocalError
      | Inr txt \<Rightarrow>
          (case bind (clean_value txt) (\<lambda>cleaned.
                bind (json_loads svc cleaned) parse_questions) of
             Inl e \<Rightarrow> Inl (Errore_parsing_Gemini e)
           | Inr qs \<Rightarrow> Inr qs))"

text \<open>The last argument and component is the list of prompts posted so far.\<close>

definition generate_quiz_logic ::
  "service \<Rightarrow> string \<Rightarrow> int \<Rightarrow> string list \<Rightarrow> (error + json) \<times> string list" where
  "generate_quiz_logic svc program_text num_questions sent =
     (if num_questions \<le> 0 then (Inl ValueError, sent)
      else (case desired_mcq num_questions of
              Inl e \<Rightarrow> (Inl e, sent)
            | Inr mcq \<Rightarrow>
                let opn = num_questions - mcq;
                    prompt = full_prompt program_text num_questions mcq opn
                in (case post svc prompt of
                      Request_failed \<Rightarrow> (Inl RequestException, sent @ [prompt])
                    | Body body \<Rightarrow> (quiz_from_body svc body, sent @ [prompt]))))"

definition cards_from_body :: "service \<Rightarrow> json option \<Rightarrow> error + json" where
  "cards_from_body svc body =
     (case bind (case body of None \<Rightarrow> Inl JSONDecodeError | Some b \<Rightarrow> candidate_text b) (\<lambda>txt.
           bind (clean_value txt) (json_loads svc)) of
        Inl e \<Rightarrow> Inl (Errore_generazione_flashcard e)
      | Inr cards \<Rightarrow> Inr cards)"

definition generate_flashcards_logic ::
  "service \<Rightarrow> string \<Rightarrow> int \<Rightarrow> string list \<Rightarrow> (error + json) \<times> string list" where
  "generate_flashcards_logic svc program_text num_cards sent =
     (if digits_exceeded num_cards then (Inl ValueError, sent)
      else let prompt = flashcards_prompt program_text num_cards
           in (case post svc prompt of
                 Request_failed \<Rightarrow> (Inl RequestException, sent @ [prompt])
               | Body body \<Rightarrow> (cards_from_body svc body, sent @ [prompt])))"

section \<open>The routes\<close>

text \<open>
  The arguments of \<open>result.html\<close>, the responses, the flashed messages, the two tables
  and the state a request can change: the session's questions, the flashed messages, the
  tables and the prompts posted.
\<close>

record result_page =
  rp_total :: int
  rp_correct :: int
  rp_wrong :: int
  rp_blank :: int
  rp_score :: string
  rp_details :: "detail list"

datatype endpoint = Index | View_flashcards int

datatype response =
    Redirect endpoint
  | Render_quiz json
  | Render_result result_page

datatype flash =
    Message string
  | Errore_Flashcard error
  | Errore_Quiz error

record deck =
  deck_pk :: int
  topic :: string

record flashcard =
  card_pk :: int
  front :: json
  "back" :: json
  deck_id :: int

record app_state =
  session_questions :: "json option"
  flashes :: "flash list"
  decks :: "deck list"
  flashcards :: "flashcard list"
  sent :: "string list"

definition flash_redirect :: "flash \<Rightarrow> app_state \<Rightarrow> (error + response) \<times> app_state" where
  "flash_redirect m st = (Inr (Redirect Index), st\<lparr>flashes := flashes st @ [m]\<rparr>)"

definition submit_quiz ::
  "(string \<rightharpoonup> string) \<Rightarrow> app_state \<Rightarrow> (error + response) \<times> app_state" where
  "submit_quiz form st =
     (case session_questions st of
        None \<Rightarrow> flash_redirect (Message ''Nessun quiz attivo.'') st
      | Some qs \<Rightarrow>
          if \<not> truthy qs then flash_redirect (Message ''Nessun quiz attivo.'') st
          else (case py_iter qs of
                  Inl e \<Rightarrow> (Inl e, st)
                | Inr items \<Rightarrow>
                    (case grade_loop form 0 items
                            \<lparr>score = d_zero, correct = 0, wrong = 0, blank = 0, details = []\<rparr> of
                       Inl e \<Rightarrow> (Inl e, st)
                     | Inr t \<Rightarrow>
                         (case py_len qs of
                            Inl e \<Rightarrow> (Inl e, st\<lparr>session_questions := None\<rparr>)
                          | Inr n \<Rightarrow>
                              (Inr (Render_result
                                 \<lparr>rp_total = n, rp_correct = correct t, rp_wrong = wrong t,
                                  rp_blank = blank t, rp_score = format_2f (score t),
                                  rp_details = details t\<rparr>),
                               st\<lparr>session_questions := None\<rparr>)))))"

text \<open>
  \<open>str.isdigit\<close> accepts the superscripts one, two and three besides \<open>0..9\<close>; \<open>int\<close>
  accepts the decimal digits only, and at most 4300 of them.
\<close>

definition py_isdigit_char :: "char \<Rightarrow> bool" where
  "py_isdigit_char c =
     (let n = (of_char c :: nat)
      in (48 \<le> n \<and> n \<le> 57) \<or> n = 178 \<or> n = 179 \<or> n = 185)"

definition py_isdigit :: "string \<Rightarrow> bool" where
  "py_isdigit s = (s \<noteq> [] \<and> list_all py_isdigit_char s)"

definition decimal_char :: "char \<Rightarrow> bool" where
  "decimal_char c = (let n = (of_char c :: nat) in 48 \<le> n \<and> n \<le> 57)"

definition py_int :: "string \<Rightarrow> error + int" where
  "py_int s =
     (if s \<noteq> [] \<and> list_all decimal_char s \<and> length s \<le> max_str_digits
      then Inr (foldl (\<lambda>a c. 10 * a + (int (of_char c) - 48)) 0 s)
      else Inl ValueError)"

text \<open>
  A new row takes the next integer key. The loop over \<open>cards_data\<close> builds the cards,
  and the commit stores them when the database accepts their values; \<open>storable\<close> is
  that test, a parameter.
\<close>

definition next_id :: "int list \<Rightarrow> int" where
  "next_id ids = (if ids = [] then 1 else Max (set ids) + 1)"

fun make_cards :: "int \<Rightarrow> int \<Rightarrow> json list \<Rightarrow> error + flashcard list" where
  "make_cards d k [] = Inr []"
| "make_cards d k (c # cs) =
     bind (subscript c ''front'') (\<lambda>f.
     bind (subscript c ''back'') (\<lambda>b.
     bind (make_cards d (k + 1) cs) (\<lambda>rest.
     Inr (\<lparr>card_pk = k, front = f, back = b, deck_id = d\<rparr> # rest))))"

definition commit_cards :: "(json \<Rightarrow> bool) \<Rightarrow> flashcard list \<Rightarrow> error + flashcard list" where
  "commit_cards storable cards =
     (if list_all (\<lambda>c. storable (front c) \<and> storable (back c)) cards
      then Inr cards else Inl DatabaseError)"

definition flashcards_path ::
  "service \<Rightarrow> (json \<Rightarrow> bool) \<Rightarrow> string \<Rightarrow> int \<Rightarrow> app_state \<Rightarrow> (error + response) \<times> app_state" where
  "flashcards_path svc storable program_text count st =
     (case generate_flashcards_logic svc program_text count (sent st) of
        (Inl e, sent') \<Rightarrow> flash_redirect (Errore_Flashcard e) (st\<lparr>sent := sent'\<rparr>)
      | (Inr cards_data, sent') \<Rightarrow>
          let title = py_replace [nl] '' '' (py_slice program_text 0 50) @ ''...'';
              new_deck = \<lparr>deck_pk = next_id (map deck_pk (decks st)), topic = title\<rparr>;
              st1 = st\<lparr>sent := sent', decks := decks st @ [new_deck]\<rparr>
          in (case bind (py_iter cards_data) (\<lambda>cs.
                   bind (make_cards (deck_pk new_deck) (next_id (map card_pk (flashcards st))) cs)
                     (commit_cards storable)) of
                Inl e \<Rightarrow> flash_redirect (Errore_Flashcard e) st1
              | Inr cards \<Rightarrow>
                  (Inr (Redirect (View_flashcards (deck_pk new_deck))),
                   st1\<lparr>flashcards := flashcards st1 @ cards\<rparr>)))"

definition quiz_path ::
  "service \<Rightarrow> string \<Rightarrow> int \<Rightarrow> app_state \<Rightarrow> (error + response) \<times> app_state" where
  "quiz_path svc program_text count st =
     (case generate_quiz_logic svc program_text count (sent st) of
        (Inl e, sent') \<Rightarrow> flash_redirect (Errore_Quiz e) (st\<lparr>sent := sent'\<rparr>)
      | (Inr qs, sent') \<Rightarrow>
          (Inr (Render_quiz qs), st\<lparr>sent := sent', session_questions := Some qs\<rparr>))"

definition generate_quiz ::
  "service \<Rightarrow> (json \<Rightarrow> bool) \<Rightarrow> (string \<rightharpoonup> string) \<Rightarrow> app_state
     \<Rightarrow> (error + response) \<times> app_state" where
  "generate_quiz svc storable form st =
     (let program_text = py_strip (form_get form ''program_text'' '''');
          num_input = py_strip (form_get form ''num_questions'' '''');
          action = form_get form ''action'' ''quiz''
      in if program_text = []
         then flash_redirect (Message ''Devi incollare il contenuto del programma.'') st
         else if \<not> py_isdigit num_input
         then flash_redirect (Message ''Numero non valido.'') st
         else (case py_int num_input of
                 Inl e \<Rightarrow> (Inl e, st)
               | Inr count \<Rightarrow>
                   if count \<le> 0 \<or> count > 50
                   then flash_redirect (Message ''Il numero deve essere tra 1 e 50.'') st
                   else if action = ''flashcards''
                   then flashcards_path svc storable program_text count st
                   else quiz_path svc program_text count st))"

section \<open>Positions, substrings and the payload decision\<close>

definition first_index :: "char \<Rightarrow> string \<Rightarrow> nat" where
  "first_index c s = length (takeWhile (\<lambda>x. x \<noteq> c) s)"

definition last_index :: "char \<Rightarrow> string \<Rightarrow> nat" where
  "last_index c s = length s - Suc (first_index c (rev s))"

definition substring :: "string \<Rightarrow> nat \<Rightarrow> nat \<Rightarrow> string" where
  "substring s i j = take (Suc j - i) (drop i s)"

definition is_object :: "string \<Rightarrow> bool" where
  "is_object s \<longleftrightarrow>
     CHR ''{'' \<in> set s \<and>
     (CHR ''['' \<notin> set s \<or> first_index CHR ''{'' s < first_index CHR ''['' s)"

definition is_array :: "string \<Rightarrow> bool" where
  "is_array s \<longleftrightarrow> \<not> is_object s \<and> CHR ''['' \<in> set s"

definition brackets :: "string \<Rightarrow> string" where
  "brackets s = filter (\<lambda>x. x = CHR ''{'' \<or> x = CHR ''['') s"

definition pair_found :: "string \<Rightarrow> bool" where
  "pair_found t \<longleftrightarrow>
     (is_object t \<and> CHR 0x7D \<in> set t) \<or> (is_array t \<and> CHR 0x5D \<in> set t)"

text \<open>
  The input with its fence markers removed: when a marker occurs, every \<open>```json\<close> and
  after that every \<open>```\<close>. The second constant is the input \<open>{"a":"```"}\<close>.
\<close>

definition without_fences :: "string \<Rightarrow> string" where
  "without_fences raw =
     (if py_in ''```'' raw
      then py_replace ''```'' '''' (py_replace ''```json'' '''' raw)
      else raw)"

definition quoted_fence :: string where
  "quoted_fence = ''{'' @ [CHR 0x22] @ ''a'' @ [CHR 0x22] @ '':'' @ [CHR 0x22] @ ''```'' @ [CHR 0x22] @ ''}''"

section \<open>Shapes of a parsed reply\<close>

text \<open>
  A parsed value has another shape when it is neither an array nor an object with a
  \<open>questions\<close> key.
\<close>

definition other_shape :: "json \<Rightarrow> bool" where
  "other_shape parsed =
     (case parsed of
        JArr xs \<Rightarrow> False
      | JObj kvs \<Rightarrow> map_of kvs ''questions'' = None
      | _ \<Rightarrow> True)"

text \<open>
  The reply to the posted prompt carries a text whose extracted payload \<open>json.loads\<close>
  parses to \<open>parsed\<close>.
\<close>

definition parsed_reply :: "service \<Rightarrow> string \<Rightarrow> int \<Rightarrow> json \<Rightarrow> bool" where
  "parsed_reply svc program_text count parsed =
     (case desired_mcq count of
        Inl e \<Rightarrow> False
      | Inr m \<Rightarrow>
          (case post svc (full_prompt program_text count m (count - m)) of
             Request_failed \<Rightarrow> False
           | Body body \<Rightarrow>
               (case body of
                  None \<Rightarrow> False
                | Some b \<Rightarrow>
                    (case candidate_text b of
                       Inr (JStr raw) \<Rightarrow> loads svc (clean_gemini_json raw) = Some parsed
                     | _ \<Rightarrow> False))))"

text \<open>
  A service for the examples: it answers every prompt with the text \<open>t\<close>, and its parser
  maps the payload extracted from \<open>t\<close> to \<open>v\<close>.
\<close>

definition reply_with :: "string \<Rightarrow> json" where
  "reply_with t =
     JObj [(''candidates'',
       JArr [JObj [(''content'', JObj [(''parts'', JArr [JObj [(''text'', JStr t)]])])]])]"

definition fixed_service :: "string \<Rightarrow> json \<Rightarrow> service" where
  "fixed_service t v =
     \<lparr>post = (\<lambda>prompt. Body (Some (reply_with t))),
      loads = (\<lambda>s. if s = clean_gemini_json t then Some v else None)\<rparr>"

section \<open>Outcomes, details and scores as the specification words them\<close>

text \<open>
  A well-formed question is an object with the keys \<open>text\<close>, \<open>qtype\<close> and \<open>answer\<close>, the
  answer a string; \<open>field\<close> reads a key of it.
\<close>

definition well_formed :: "json \<Rightarrow> bool" where
  "well_formed q =
     (case q of
        JObj kvs \<Rightarrow>
          map_of kvs ''text'' \<noteq> None \<and> map_of kvs ''qtype'' \<noteq> None \<and>
          (case map_of kvs ''answer'' of Some (JStr a) \<Rightarrow> True | _ \<Rightarrow> False)
      | _ \<Rightarrow> False)"

definition field :: "json \<Rightarrow> string \<Rightarrow> json" where
  "field q k = (case subscript q k of Inr v \<Rightarrow> v | Inl e \<Rightarrow> JNull)"

definition answer_of :: "json \<Rightarrow> string" where
  "answer_of q = (case field q ''answer'' of JStr a \<Rightarrow> a | _ \<Rightarrow> [])"

text \<open>The submitted answer for index \<open>i\<close>, trimmed; a missing entry is the empty string.\<close>

definition trimmed_answer :: "(string \<rightharpoonup> string) \<Rightarrow> nat \<Rightarrow> string" where
  "trimmed_answer form i =
     py_strip (case form (''q'' @ py_str_int (int i)) of None \<Rightarrow> [] | Some a \<Rightarrow> a)"

text \<open>
  The outcome of a question for a trimmed answer, the entry of \<open>details\<close> it yields, and
  the entries for a list of questions numbered from \<open>i\<close>.
\<close>

definition outcome :: "json \<Rightarrow> string \<Rightarrow> string" where
  "outcome q ans =
     (if ans = [] then ''blank''
      else if field q ''qtype'' = JStr ''mcq''
      then (if ans = answer_of q then ''correct'' else ''wrong'')
      else (if py_lower ans = py_lower (answer_of q) then ''correct'' else ''wrong''))"

definition graded :: "(string \<rightharpoonup> string) \<Rightarrow> nat \<Rightarrow> json \<Rightarrow> detail" where
  "graded form i q =
     \<lparr>text = field q ''text'', user_answer = trimmed_answer form i,
      correct_answer = field q ''answer'', result = outcome q (trimmed_answer form i)\<rparr>"

definition graded_list :: "(string \<rightharpoonup> string) \<Rightarrow> nat \<Rightarrow> json list \<Rightarrow> detail list" where
  "graded_list form i qs = map (\<lambda>(k, q). graded form k q) (zip [i..<i + length qs] qs)"

text \<open>
  The change of the score for an outcome, the running score of a list of outcomes, the
  number of occurrences of an outcome, and the effect of one entry on the loop variables.
\<close>

definition contribution :: "string \<Rightarrow> double \<Rightarrow> double" where
  "contribution r s =
     (if r = ''correct'' then fadd s d_one
      else if r = ''wrong'' then fsub s d_tenth
      else s)"

definition running_score :: "string list \<Rightarrow> double" where
  "running_score rs = foldl (\<lambda>s r. contribution r s) d_zero rs"

definition count_of :: "string \<Rightarrow> string list \<Rightarrow> int" where
  "count_of r rs = int (length (filter (\<lambda>x. x = r) rs))"

definition record_outcome :: "detail \<Rightarrow> tally \<Rightarrow> tally" where
  "record_outcome d t =
     t\<lparr>score := contribution (result d) (score t),
       correct := correct t + (if result d = ''correct'' then 1 else 0),
       wrong := wrong t + (if result d = ''wrong'' then 1 else 0),
       blank := blank t + (if result d = ''blank'' then 1 else 0),
       details := details t @ [d]\<rparr>"


text \<open>
  For the examples: a question, the state in which a list of questions awaits grading,
  the result page of a response, and submissions.
\<close>

definition question :: "string \<Rightarrow> string \<Rightarrow> string \<Rightarrow> json" where
  "question tx qt a =
     JObj [(''text'', JStr tx), (''qtype'', JStr qt), (''options'', JNull), (''answer'', JStr a)]"

definition pending :: "json list \<Rightarrow> app_state" where
  "pending qs =
     \<lparr>session_questions = Some (JArr qs), flashes = [], decks = [], flashcards = [], sent = []\<rparr>"

definition page_of :: "(error + response) \<times> app_state \<Rightarrow> result_page option" where
  "page_of r = (case fst r of Inr (Render_result p) \<Rightarrow> Some p | _ \<Rightarrow> None)"

definition sample_questions :: "json list" where
  "sample_questions =
     [question ''Q'' ''mcq'' ''B'', question ''R'' ''open'' ''Rome'', question ''S'' ''open'' ''x'']"

definition sample_form :: "string \<rightharpoonup> string" where
  "sample_form = [''q0'' \<mapsto> ''B '', ''q1'' \<mapsto> '' Milan'']"



section \<open>The topic label\<close>

text \<open>
  The label of a source text, the deck created for it, and the requests that pass the
  validation of the route, choose the flashcards path and have their cards generated.
\<close>

definition topic_label :: "string \<Rightarrow> string" where
  "topic_label source_text =
     map (\<lambda>c. if c = CHR 0x0A then CHR '' '' else c) (take 50 source_text) @ ''...''"

definition created_deck :: "app_state \<Rightarrow> string \<Rightarrow> deck" where
  "created_deck st source_text =
     \<lparr>deck_pk = next_id (map deck_pk (decks st)), topic = topic_label source_text\<rparr>"

definition flashcards_request ::
  "service \<Rightarrow> (string \<rightharpoonup> string) \<Rightarrow> app_state \<Rightarrow> bool" where
  "flashcards_request svc form st =
     (let program_text = py_strip (form_get form ''program_text'' '''');
          num_input = py_strip (form_get form ''num_questions'' '''')
      in program_text \<noteq> [] \<and> py_isdigit num_input \<and>
         form_get form ''action'' ''quiz'' = ''flashcards'' \<and>
         (case py_int num_input of
            Inl e \<Rightarrow> False
          | Inr count \<Rightarrow>
              0 < count \<and> count \<le> 50 \<and>
              (case fst (generate_flashcards_logic svc program_text count (sent st)) of
                 Inl e \<Rightarrow> False
               | Inr cards \<Rightarrow> True)))"

definition notes_form :: "string \<rightharpoonup> string" where
  "notes_form =
     [''program_text'' \<mapsto> '' line one'' @ [CHR 0x0A] @ ''line two '',
      ''num_questions'' \<mapsto> ''5'',
      ''action'' \<mapsto> ''flashcards'']"

section \<open>Properties of the response extractor\<close>

lemma startswith_single: "startswith (x # xs) [c] \<longleftrightarrow> x = c"
  by (simp add: startswith_def)

lemma find_from_single:
  "find_from [c] s i = (if c \<in> set s then int (i + first_index c s) else - 1)"
  by (induction s arbitrary: i) (auto simp: startswith_single first_index_def)

lemma py_find_single:
  "py_find s [c] = (if c \<in> set s then int (first_index c s) else - 1)"
  by (simp add: py_find_def find_from_single)

lemma rfind_from_absent: "c \<notin> set s \<Longrightarrow> rfind_from [c] s i = - 1"
  by (induction s arbitrary: i) (auto simp: startswith_single Let_def)

lemma rfind_from_last:
  "c \<notin> set suf \<Longrightarrow> rfind_from [c] (pre @ c # suf) i = int (i + length pre)"
  by (induction pre arbitrary: i) (auto simp: startswith_single Let_def rfind_from_absent)

lemma last_index_split:
  assumes "c \<notin> set suf"
  shows "last_index c (pre @ c # suf) = length pre"
proof -
  have "takeWhile (\<lambda>x. x \<noteq> c) (rev suf @ c # rev pre) = rev suf"
    using assms by (auto simp: takeWhile_tail)
  then show ?thesis
    by (simp add: last_index_def first_index_def)
qed

lemma py_rfind_single:
  "py_rfind s [c] = (if c \<in> set s then int (last_index c s) else - 1)"
proof (cases "c \<in> set s")
  case False
  then show ?thesis by (simp add: py_rfind_def rfind_from_absent)
next
  case True
  then obtain pre suf where s: "s = pre @ c # suf" and n: "c \<notin> set suf"
    by (meson split_list_last)
  show ?thesis
    using True n by (simp add: s py_rfind_def rfind_from_last last_index_split del: set_append)
qed

lemma first_index_less: "c \<in> set s \<Longrightarrow> first_index c s < length s"
  by (induction s) (auto simp: first_index_def)

lemma last_index_less: "c \<in> set s \<Longrightarrow> last_index c s < length s"
  by (cases s) (auto simp: last_index_def)

lemma py_slice_substring:
  "py_slice s (int i) (int j + 1) = substring s i j" if "i \<le> length s" "j < length s"
proof -
  have "nat (int j + 1 - int i) = Suc j - i" by linarith
  then show ?thesis
    using that by (simp add: py_slice_def substring_def Let_def min_def)
qed

lemma is_object_brackets:
  "is_object s \<longleftrightarrow> (case brackets s of [] \<Rightarrow> False | x # _ \<Rightarrow> x = CHR ''{'')"
proof (induction s)
  case Nil
  show ?case by (simp add: is_object_def brackets_def)
next
  case (Cons a s)
  consider "a = CHR ''{''" | "a = CHR ''[''" | "a \<noteq> CHR ''{''" "a \<noteq> CHR ''[''" by blast
  then show ?case
  proof cases
    case 1
    then show ?thesis by (simp add: is_object_def brackets_def first_index_def)
  next
    case 2
    then show ?thesis by (simp add: is_object_def brackets_def first_index_def)
  next
    case 3
    have "is_object (a # s) = is_object s"
      using 3 by (simp add: is_object_def first_index_def)
    moreover have "brackets (a # s) = brackets s"
      using 3 by (simp add: brackets_def)
    ultimately show ?thesis using Cons.IH by simp
  qed
qed

lemma in_set_brackets:
  "CHR ''['' \<in> set s \<longleftrightarrow> CHR ''['' \<in> set (brackets s)"
  by (auto simp: brackets_def)

lemma is_array_brackets:
  "is_array s \<longleftrightarrow> (case brackets s of [] \<Rightarrow> False | x # _ \<Rightarrow> x = CHR ''['')"
proof -
  have "set (brackets s) \<subseteq> {CHR ''{'', CHR ''[''}"
    by (auto simp: brackets_def)
  then show ?thesis
    unfolding is_array_def is_object_brackets in_set_brackets [of s]
    by (cases "brackets s") auto
qed

lemma filter_dropWhile_other:
  "(\<And>x. Q x \<Longrightarrow> \<not> P x) \<Longrightarrow> filter P (dropWhile Q s) = filter P s"
  by (induction s) auto

lemma filter_py_strip:
  assumes "\<And>x. py_isspace x \<Longrightarrow> \<not> P x"
  shows "filter P (py_strip s) = filter P s"
proof -
  have "filter P (py_strip s) = rev (filter P (dropWhile py_isspace (rev (dropWhile py_isspace s))))"
    by (simp add: py_strip_def rev_filter)
  also have "\<dots> = rev (filter P (rev (dropWhile py_isspace s)))"
    using assms by (simp add: filter_dropWhile_other)
  also have "\<dots> = filter P (dropWhile py_isspace s)"
    by (simp add: rev_filter)
  also have "\<dots> = filter P s"
    using assms by (simp add: filter_dropWhile_other)
  finally show ?thesis .
qed

lemma filter_py_replace_erase:
  "(\<And>x. x \<in> set old \<Longrightarrow> \<not> P x) \<Longrightarrow> filter P (py_replace old [] s) = filter P s"
proof (induction old "[] :: string" s rule: py_replace.induct)
  case (1 old)
  show ?case by simp
next
  case (2 old c cs)
  show ?case
  proof (cases "old = []")
    case True
    with 2 show ?thesis by simp
  next
    case False
    show ?thesis
    proof (cases "startswith (c # cs) old")
      case True
      then have split: "c # cs = old @ drop (length old) (c # cs)"
        by (metis append_take_drop_id startswith_def)
      have "filter P (c # cs) = filter P (old @ drop (length old) (c # cs))"
        using split by simp
      also have "\<dots> = filter P (drop (length old) (c # cs))"
        using "2.prems" by (simp del: drop.simps)
      finally show ?thesis
        using False True 2 by simp
    next
      case False
      with \<open>old \<noteq> []\<close> 2 show ?thesis by simp
    qed
  qed
qed

lemma brackets_py_strip: "brackets (py_strip s) = brackets s"
  unfolding brackets_def by (rule filter_py_strip) (auto simp: py_isspace_def)

lemma brackets_py_replace_erase:
  "CHR 0x7B \<notin> set old \<Longrightarrow> CHR 0x5B \<notin> set old \<Longrightarrow>
   brackets (py_replace old [] s) = brackets s"
  unfolding brackets_def by (rule filter_py_replace_erase) auto

lemma brackets_unfenced: "brackets (unfenced raw) = brackets raw"
  by (simp add: unfenced_def Let_def brackets_py_strip brackets_py_replace_erase)

lemma is_object_unfenced: "is_object (unfenced raw) = is_object raw"
  by (simp add: is_object_brackets brackets_unfenced)

lemma is_array_unfenced: "is_array (unfenced raw) = is_array raw"
  by (simp add: is_array_brackets brackets_unfenced)

lemma bounds_cases:
  "bounds t =
     (if is_object t then (py_find t ''{'', py_rfind t ''}'')
      else if is_array t then (py_find t ''['', py_rfind t '']'')
      else (- 1, - 1))"
proof -
  have b: "py_find t ''{'' \<noteq> - 1 \<longleftrightarrow> CHR 0x7B \<in> set t"
    by (simp add: py_find_single)
  have k: "py_find t ''['' \<noteq> - 1 \<longleftrightarrow> CHR 0x5B \<in> set t"
    by (simp add: py_find_single)
  have lt: "py_find t ''{'' < py_find t ''[''
      \<longleftrightarrow> first_index CHR 0x7B t < first_index CHR 0x5B t"
    if "CHR 0x7B \<in> set t" "CHR 0x5B \<in> set t"
    using that by (simp add: py_find_single)
  have obj: "is_object t \<longleftrightarrow>
      py_find t ''{'' \<noteq> - 1 \<and> (py_find t ''['' = - 1 \<or> py_find t ''{'' < py_find t ''['')"
    unfolding is_object_def using b k lt by blast
  have arr: "is_array t \<longleftrightarrow> \<not> is_object t \<and> py_find t ''['' \<noteq> - 1"
    unfolding is_array_def using k by blast
  show ?thesis
    unfolding bounds_def Let_def obj arr by simp
qed

lemma bounds_object:
  assumes "is_object t"
  shows "bounds t =
     (int (first_index CHR 0x7B t),
      if CHR 0x7D \<in> set t then int (last_index CHR 0x7D t) else - 1)"
proof -
  have "CHR 0x7B \<in> set t"
    using assms by (simp add: is_object_def)
  then have "py_find t ''{'' = int (first_index CHR 0x7B t)"
    by (simp add: py_find_single)
  then show ?thesis
    using assms by (simp only: bounds_cases if_True py_rfind_single)
qed

lemma bounds_array:
  assumes "is_array t"
  shows "bounds t =
     (int (first_index CHR 0x5B t),
      if CHR 0x5D \<in> set t then int (last_index CHR 0x5D t) else - 1)"
proof -
  have n: "\<not> is_object t" and "CHR 0x5B \<in> set t"
    using assms by (simp_all add: is_array_def)
  then have "py_find t ''['' = int (first_index CHR 0x5B t)"
    by (simp add: py_find_single)
  then show ?thesis
    using assms n by (simp only: bounds_cases if_True if_False py_rfind_single)
qed

lemma bounds_none:
  "\<not> is_object t \<Longrightarrow> \<not> is_array t \<Longrightarrow> bounds t = (- 1, - 1)"
  by (simp only: bounds_cases if_False)

lemma clean_object:
  assumes "is_object (unfenced raw)" "CHR 0x7D \<in> set (unfenced raw)"
  shows "clean_gemini_json raw =
    substring (unfenced raw) (first_index CHR 0x7B (unfenced raw)) (last_index CHR 0x7D (unfenced raw))"
proof -
  have "CHR 0x7B \<in> set (unfenced raw)"
    using assms(1) by (simp add: is_object_def)
  then have "first_index CHR 0x7B (unfenced raw) \<le> length (unfenced raw)"
    using first_index_less [of "CHR 0x7B" "unfenced raw"] by simp
  moreover have "last_index CHR 0x7D (unfenced raw) < length (unfenced raw)"
    using assms(2) by (rule last_index_less)
  ultimately show ?thesis
    using assms by (simp add: clean_gemini_json_def bounds_object py_slice_substring Let_def)
qed

lemma clean_array:
  assumes "is_array (unfenced raw)" "CHR 0x5D \<in> set (unfenced raw)"
  shows "clean_gemini_json raw =
    substring (unfenced raw) (first_index CHR 0x5B (unfenced raw)) (last_index CHR 0x5D (unfenced raw))"
proof -
  have "CHR 0x5B \<in> set (unfenced raw)"
    using assms(1) by (simp add: is_array_def)
  then have "first_index CHR 0x5B (unfenced raw) \<le> length (unfenced raw)"
    using first_index_less [of "CHR 0x5B" "unfenced raw"] by simp
  moreover have "last_index CHR 0x5D (unfenced raw) < length (unfenced raw)"
    using assms(2) by (rule last_index_less)
  ultimately show ?thesis
    using assms by (simp add: clean_gemini_json_def bounds_array py_slice_substring Let_def)
qed

lemma clean_no_pair:
  assumes "\<not> pair_found (unfenced raw)"
  shows "clean_gemini_json raw = unfenced raw"
proof -
  consider "is_object (unfenced raw)" | "is_array (unfenced raw)"
    | "\<not> is_object (unfenced raw)" "\<not> is_array (unfenced raw)" by blast
  then show ?thesis
  proof cases
    case 1
    with assms show ?thesis
      by (simp add: pair_found_def clean_gemini_json_def bounds_object)
  next
    case 2
    with assms show ?thesis
      by (simp add: pair_found_def clean_gemini_json_def bounds_array)
  next
    case 3
    then show ?thesis
      by (simp add: clean_gemini_json_def bounds_none)
  qed
qed

lemma mem_filter_eq: "c \<in> set s \<longleftrightarrow> filter (\<lambda>x. x = c) s \<noteq> []"
  by (induction s) auto

lemma filter_unfenced:
  assumes sp: "\<And>x. P x \<Longrightarrow> \<not> py_isspace x"
    and fence: "\<And>x. P x \<Longrightarrow> x \<notin> set ''```json''"
  shows "filter P (unfenced raw) = filter P raw"
proof -
  have sub: "set ''```'' \<subseteq> set ''```json''"
    by simp
  have a: "filter P (py_replace ''```json'' [] s) = filter P s" for s
    by (rule filter_py_replace_erase) (use fence in blast)
  have b: "filter P (py_replace ''```'' [] s) = filter P s" for s
    by (rule filter_py_replace_erase) (use fence sub in blast)
  have c: "filter P (py_strip raw) = filter P raw"
    by (rule filter_py_strip) (use sp in blast)
  show ?thesis
    unfolding unfenced_def Let_def
    by (cases "py_in ''```'' (py_strip raw)") (simp_all only: if_True if_False a b c)
qed

lemma not_space_closers:
  "\<not> py_isspace CHR 0x7D" "\<not> py_isspace CHR 0x5D"
  by (simp_all add: py_isspace_def)

lemma not_fence_closers:
  "CHR 0x7D \<notin> set ''```json''" "CHR 0x5D \<notin> set ''```json''"
  by simp_all

lemma closer_unfenced:
  "CHR 0x7D \<in> set (unfenced raw) \<longleftrightarrow> CHR 0x7D \<in> set raw"
  "CHR 0x5D \<in> set (unfenced raw) \<longleftrightarrow> CHR 0x5D \<in> set raw"
proof -
  have "filter (\<lambda>x. x = CHR 0x7D) (unfenced raw) = filter (\<lambda>x. x = CHR 0x7D) raw"
    by (rule filter_unfenced) (use not_space_closers not_fence_closers in blast)+
  then show "CHR 0x7D \<in> set (unfenced raw) \<longleftrightarrow> CHR 0x7D \<in> set raw"
    by (simp only: mem_filter_eq [of _ raw] mem_filter_eq [of _ "unfenced raw"])
  have "filter (\<lambda>x. x = CHR 0x5D) (unfenced raw) = filter (\<lambda>x. x = CHR 0x5D) raw"
    by (rule filter_unfenced) (use not_space_closers not_fence_closers in blast)+
  then show "CHR 0x5D \<in> set (unfenced raw) \<longleftrightarrow> CHR 0x5D \<in> set raw"
    by (simp only: mem_filter_eq [of _ raw] mem_filter_eq [of _ "unfenced raw"])
qed

lemma substring_crossed: "j < i \<Longrightarrow> substring s i j = []"
  by (simp add: substring_def)

lemma substring_nth:
  "i \<le> j \<Longrightarrow> j < length s \<Longrightarrow> substring s i j = map (\<lambda>k. s ! k) [i..<Suc j]"
  by (auto simp: substring_def list_eq_iff_nth_eq simp del: upt_Suc)

lemma find_from_found:
  "find_from sub s i \<noteq> - 1 \<longleftrightarrow> (\<exists>pre suf. s = pre @ sub @ suf)"
proof (induction s arbitrary: i)
  case Nil
  show ?case by simp
next
  case (Cons c cs)
  show ?case
  proof (cases "startswith (c # cs) sub")
    case True
    then have "c # cs = [] @ sub @ drop (length sub) (c # cs)"
      by (metis append_Nil append_take_drop_id startswith_def)
    then have "\<exists>pre suf. c # cs = pre @ sub @ suf"
      by blast
    with True show ?thesis by simp
  next
    case False
    have "(\<exists>pre suf. c # cs = pre @ sub @ suf) \<longleftrightarrow> (\<exists>pre suf. cs = pre @ sub @ suf)"
    proof
      assume "\<exists>pre suf. c # cs = pre @ sub @ suf"
      then obtain pre suf where e: "c # cs = pre @ sub @ suf" by blast
      show "\<exists>pre suf. cs = pre @ sub @ suf"
      proof (cases pre)
        case Nil
        with e have "startswith (c # cs) sub"
          by (simp add: startswith_def)
        with False show ?thesis by simp
      next
        case (Cons a pre')
        with e have "cs = pre' @ sub @ suf" by simp
        then show ?thesis by blast
      qed
    next
      assume "\<exists>pre suf. cs = pre @ sub @ suf"
      then obtain pre suf where "cs = pre @ sub @ suf" by blast
      then have "c # cs = (c # pre) @ sub @ suf" by simp
      then show "\<exists>pre suf. c # cs = pre @ sub @ suf" by blast
    qed
    with False Cons.IH [of "Suc i"] show ?thesis by simp
  qed
qed

lemma py_in_iff: "py_in sub s \<longleftrightarrow> (\<exists>pre suf. s = pre @ sub @ suf)"
  by (simp add: py_in_def py_find_def find_from_found)

lemma py_strip_infix: "\<exists>a b. s = a @ py_strip s @ b"
proof -
  let ?t = "dropWhile py_isspace s"
  have "s = takeWhile py_isspace s @ ?t" by simp
  moreover have "?t = py_strip s @ rev (takeWhile py_isspace (rev ?t))"
    unfolding py_strip_def
    by (metis rev_append rev_rev_ident takeWhile_dropWhile_id)
  ultimately show ?thesis by metis
qed

lemma py_in_strip: "py_in sub (py_strip s) \<Longrightarrow> py_in sub s"
proof -
  assume "py_in sub (py_strip s)"
  then obtain pre suf where e: "py_strip s = pre @ sub @ suf"
    by (auto simp: py_in_iff)
  obtain a b where "s = a @ py_strip s @ b"
    using py_strip_infix by blast
  with e have "s = (a @ pre) @ sub @ (suf @ b)" by simp
  then show ?thesis unfolding py_in_iff by blast
qed

lemma unfenced_plain: "\<not> py_in ''```'' raw \<Longrightarrow> unfenced raw = py_strip raw"
  using py_in_strip [of "''```''" raw] by (auto simp: unfenced_def Let_def)

lemma pair_found_unfenced: "pair_found (unfenced raw) \<longleftrightarrow> pair_found raw"
  by (simp only: pair_found_def is_object_unfenced is_array_unfenced closer_unfenced)

lemma no_brackets_no_pair:
  "CHR 0x7B \<notin> set raw \<Longrightarrow> CHR 0x5B \<notin> set raw \<Longrightarrow> \<not> pair_found raw"
  by (simp add: pair_found_def is_object_def is_array_def)

text \<open>
  Claim C4 as stated fails on an input with a fence marker and no bracket: the result
  has lost the markers, so it is not the trimmed input.
\<close>

theorem clean_gemini_json_no_payload_counterexample:
  "CHR 0x7B \<notin> set ''```json no data```'' \<and> CHR 0x5B \<notin> set ''```json no data```'' \<and>
   clean_gemini_json ''```json no data```'' = '' no data'' \<and>
   py_strip ''```json no data```'' = ''```json no data```'' \<and>
   clean_gemini_json ''```json no data```'' \<noteq> py_strip ''```json no data```''"
  by code_simp

text \<open>
  Claim C4, amended. When no start and end pair is found, in particular when the input
  contains neither \<open>{\<close> nor \<open>[\<close>, the result is the stripped text with the fence markers
  removed; when the input contains no fence marker that text is the stripped input
  unchanged.
\<close>

theorem clean_gemini_json_no_payload:
  "(\<not> pair_found raw \<longrightarrow> clean_gemini_json raw = unfenced raw) \<and>
   (CHR 0x7B \<notin> set raw \<and> CHR 0x5B \<notin> set raw \<longrightarrow> clean_gemini_json raw = unfenced raw) \<and>
   (\<not> py_in ''```'' raw \<longrightarrow> unfenced raw = py_strip raw)"
proof (intro conjI impI)
  assume "\<not> pair_found raw"
  then show "clean_gemini_json raw = unfenced raw"
    by (simp add: clean_no_pair pair_found_unfenced)
next
  assume "CHR 0x7B \<notin> set raw \<and> CHR 0x5B \<notin> set raw"
  then have "\<not> pair_found raw"
    by (simp add: no_brackets_no_pair)
  then show "clean_gemini_json raw = unfenced raw"
    by (simp add: clean_no_pair pair_found_unfenced)
next
  assume "\<not> py_in ''```'' raw"
  then show "unfenced raw = py_strip raw"
    by (rule unfenced_plain)
qed

text \<open>The hypotheses of the amended C4 discharged at concrete inputs.\<close>

theorem clean_gemini_json_no_payload_witness:
  "\<not> pair_found '' {open only '' \<and> clean_gemini_json '' {open only '' = ''{open only'' \<and>
   CHR 0x7B \<notin> set '' plain text '' \<and> CHR 0x5B \<notin> set '' plain text '' \<and>
   \<not> py_in ''```'' '' plain text '' \<and>
   clean_gemini_json '' plain text '' = ''plain text''"
proof -
  have h1: "\<not> pair_found '' {open only ''" by code_simp
  have v1: "unfenced '' {open only '' = ''{open only''" by code_simp
  have h2: "CHR 0x7B \<notin> set '' plain text '' \<and> CHR 0x5B \<notin> set '' plain text ''" by code_simp
  have h3: "\<not> py_in ''```'' '' plain text ''" by code_simp
  have v3: "py_strip '' plain text '' = ''plain text''" by code_simp
  show ?thesis
    using clean_gemini_json_no_payload [of "'' {open only ''"]
      clean_gemini_json_no_payload [of "'' plain text ''"] h1 v1 h2 h3 v3
    by simp
qed

text \<open>
  Claim C10. When the chosen end position precedes the chosen start position, the result
  is the empty string; \<open>} {\<close> is such an input.
\<close>

theorem clean_gemini_json_crossed:
  "(is_object raw \<and> CHR 0x7D \<in> set raw \<and>
      last_index CHR 0x7D (unfenced raw) < first_index CHR 0x7B (unfenced raw)
      \<longrightarrow> clean_gemini_json raw = []) \<and>
   (is_array raw \<and> CHR 0x5D \<in> set raw \<and>
      last_index CHR 0x5D (unfenced raw) < first_index CHR 0x5B (unfenced raw)
      \<longrightarrow> clean_gemini_json raw = []) \<and>
   clean_gemini_json ''} {'' = []"
proof (intro conjI impI)
  assume a: "is_object raw \<and> CHR 0x7D \<in> set raw \<and>
      last_index CHR 0x7D (unfenced raw) < first_index CHR 0x7B (unfenced raw)"
  then have "is_object (unfenced raw)" "CHR 0x7D \<in> set (unfenced raw)"
    by (simp_all add: is_object_unfenced closer_unfenced)
  then show "clean_gemini_json raw = []"
    using a by (simp add: clean_object substring_crossed)
next
  assume a: "is_array raw \<and> CHR 0x5D \<in> set raw \<and>
      last_index CHR 0x5D (unfenced raw) < first_index CHR 0x5B (unfenced raw)"
  then have "is_array (unfenced raw)" "CHR 0x5D \<in> set (unfenced raw)"
    by (simp_all add: is_array_unfenced closer_unfenced)
  then show "clean_gemini_json raw = []"
    using a by (simp add: clean_array substring_crossed)
next
  show "clean_gemini_json ''} {'' = []" by code_simp
qed

text \<open>The hypotheses of C10 discharged at an object and at an array input.\<close>

theorem clean_gemini_json_crossed_witness:
  "is_object ''x} y{ z'' \<and> CHR 0x7D \<in> set ''x} y{ z'' \<and>
   last_index CHR 0x7D (unfenced ''x} y{ z'') < first_index CHR 0x7B (unfenced ''x} y{ z'') \<and>
   clean_gemini_json ''x} y{ z'' = [] \<and>
   is_array ''] [{}'' \<and> CHR 0x5D \<in> set ''] [{}'' \<and>
   last_index CHR 0x5D (unfenced ''] [{}'') < first_index CHR 0x5B (unfenced ''] [{}'') \<and>
   clean_gemini_json ''] [{}'' = []"
proof -
  have o: "is_object ''x} y{ z'' \<and> CHR 0x7D \<in> set ''x} y{ z'' \<and>
   last_index CHR 0x7D (unfenced ''x} y{ z'') < first_index CHR 0x7B (unfenced ''x} y{ z'')"
    by code_simp
  have a: "is_array ''] [{}'' \<and> CHR 0x5D \<in> set ''] [{}'' \<and>
   last_index CHR 0x5D (unfenced ''] [{}'') < first_index CHR 0x5B (unfenced ''] [{}'')"
    by code_simp
  show ?thesis
    using clean_gemini_json_crossed [of "''x} y{ z''"]
      clean_gemini_json_crossed [of "''] [{}''"] o a
    by blast
qed

lemma startswith_length: "startswith s sub \<Longrightarrow> length sub \<le> length s"
proof -
  assume "startswith s sub"
  then have "length (take (length sub) s) = length sub"
    by (simp only: startswith_def)
  then show ?thesis by simp
qed

lemma startswith_outside:
  assumes "c \<notin> set sub" "sub \<noteq> []"
  shows "\<not> startswith (c # s) sub"
proof
  assume "startswith (c # s) sub"
  then have t: "take (length sub) (c # s) = sub"
    by (simp only: startswith_def)
  from assms(2) obtain y ys where sub: "sub = y # ys"
    by (cases sub) simp_all
  from t have "c = y"
    unfolding sub by simp
  with assms(1) sub show False by simp
qed

lemma startswith_append:
  assumes "set b \<inter> set sub = {}"
  shows "startswith (xs @ b) sub \<longleftrightarrow> startswith xs sub"
proof (cases "length sub \<le> length xs")
  case True
  then show ?thesis by (simp add: startswith_def)
next
  case False
  then have n: "\<not> startswith xs sub"
    using startswith_length [of xs sub] by auto
  have "\<not> startswith (xs @ b) sub"
  proof
    assume "startswith (xs @ b) sub"
    then have "take (length sub) (xs @ b) = sub"
      by (simp only: startswith_def)
    moreover have "take (length sub) xs = xs"
      using False by simp
    ultimately have e: "sub = xs @ take (length sub - length xs) b"
      by simp
    have ne: "take (length sub - length xs) b \<noteq> []"
    proof
      assume "take (length sub - length xs) b = []"
      with e have "sub = xs" by simp
      with False show False by simp
    qed
    then obtain y ys where t: "take (length sub - length xs) b = y # ys"
      by (cases "take (length sub - length xs) b") simp_all
    have "y \<in> set (take (length sub - length xs) b)"
      by (simp only: t list.set_intros(1))
    then have yb: "y \<in> set b"
      by (rule in_set_takeD)
    have "sub = xs @ y # ys"
      using e by (simp only: t)
    then have "y \<in> set sub"
      by simp
    with yb assms show False by blast
  qed
  with n show ?thesis by simp
qed

lemma py_replace_skip:
  assumes "c \<notin> set old" "old \<noteq> []"
  shows "py_replace old [] (c # s) = c # py_replace old [] s"
  using assms startswith_outside [OF assms, of s] by simp

lemma py_replace_leading:
  assumes "set a \<inter> set old = {}" "old \<noteq> []"
  shows "py_replace old [] (a @ s) = a @ py_replace old [] s"
  using assms(1)
proof (induction a)
  case Nil
  show ?case by simp
next
  case (Cons c a)
  then have c: "c \<notin> set old" and a: "set a \<inter> set old = {}" by auto
  have "py_replace old [] ((c # a) @ s) = c # py_replace old [] (a @ s)"
    using py_replace_skip [OF c assms(2), of "a @ s"] by simp
  also have "\<dots> = (c # a) @ py_replace old [] s"
    using Cons.IH [OF a] by simp
  finally show ?case .
qed

lemma py_replace_Cons:
  "old \<noteq> [] \<Longrightarrow>
   py_replace old new (c # cs) =
     (if startswith (c # cs) old
      then new @ py_replace old new (drop (length old) (c # cs))
      else c # py_replace old new cs)"
  by (simp only: py_replace.simps(2) if_False)

lemma py_replace_trailing:
  assumes "set b \<inter> set old = {}" "old \<noteq> []"
  shows "py_replace old [] (s @ b) = py_replace old [] s @ b"
proof (induction s rule: length_induct)
  case (1 s)
  show ?case
  proof (cases s)
    case Nil
    have "py_replace old [] b = b @ py_replace old [] []"
      using py_replace_leading [OF assms, of "[]"] by (simp only: append_Nil2)
    then show ?thesis
      using assms(2) by (simp add: Nil)
  next
    case (Cons c cs)
    have sw: "startswith (c # cs @ b) old \<longleftrightarrow> startswith (c # cs) old"
      using startswith_append [OF assms(1), of "c # cs"] by (simp only: append_Cons)
    show ?thesis
    proof (cases "startswith (c # cs) old")
      case True
      then have len: "length old \<le> length (c # cs)"
        by (rule startswith_length)
      then have d: "drop (length old) (c # cs @ b) = drop (length old) (c # cs) @ b"
        using drop_append [of "length old" "c # cs" b] by (simp only: append_Cons) simp
      have "length (drop (length old) (c # cs)) < length s"
        using assms(2) by (simp add: Cons)
      then have ih: "py_replace old [] (drop (length old) (c # cs) @ b)
          = py_replace old [] (drop (length old) (c # cs)) @ b"
        using "1.IH" by blast
      have "py_replace old [] (s @ b) = py_replace old [] (drop (length old) (c # cs @ b))"
        using True sw py_replace_Cons [OF assms(2), of "[]" c "cs @ b"]
        by (simp only: Cons append_Cons if_True append_Nil)
      also have "\<dots> = py_replace old [] (drop (length old) (c # cs)) @ b"
        by (simp only: d ih)
      also have "py_replace old [] (drop (length old) (c # cs)) = py_replace old [] s"
        using True py_replace_Cons [OF assms(2), of "[]" c cs]
        by (simp only: Cons if_True append_Nil)
      finally show ?thesis .
    next
      case False
      have "length cs < length s"
        by (simp add: Cons)
      then have ih: "py_replace old [] (cs @ b) = py_replace old [] cs @ b"
        using "1.IH" by blast
      have "py_replace old [] (s @ b) = c # py_replace old [] (cs @ b)"
        using False sw py_replace_Cons [OF assms(2), of "[]" c "cs @ b"]
        by (simp only: Cons append_Cons if_False)
      also have "\<dots> = (c # py_replace old [] cs) @ b"
        by (simp only: ih append_Cons)
      also have "c # py_replace old [] cs = py_replace old [] s"
        using False py_replace_Cons [OF assms(2), of "[]" c cs]
        by (simp only: Cons if_False)
      finally show ?thesis .
    qed
  qed
qed

lemma found_shift: "find_from sub s i \<noteq> - 1 \<longleftrightarrow> find_from sub s j \<noteq> - 1"
  by (simp only: find_from_found)

lemma py_in_Cons: "py_in sub (c # s) \<longleftrightarrow> startswith (c # s) sub \<or> py_in sub s"
proof (cases "startswith (c # s) sub")
  case True
  then show ?thesis by (simp add: py_in_def py_find_def)
next
  case False
  then have "py_in sub (c # s) \<longleftrightarrow> find_from sub s (Suc 0) \<noteq> - 1"
    by (simp add: py_in_def py_find_def)
  also have "\<dots> \<longleftrightarrow> find_from sub s 0 \<noteq> - 1"
    by (rule found_shift)
  finally show ?thesis
    using False by (simp add: py_in_def py_find_def)
qed

lemma py_in_Nil: "py_in sub [] \<longleftrightarrow> sub = []"
  by (simp add: py_in_def py_find_def)

lemma py_in_leading:
  assumes "set a \<inter> set old = {}" "old \<noteq> []"
  shows "py_in old (a @ s) \<longleftrightarrow> py_in old s"
  using assms(1)
proof (induction a)
  case Nil
  show ?case by simp
next
  case (Cons c a)
  then have c: "c \<notin> set old" and a: "set a \<inter> set old = {}" by auto
  have "py_in old ((c # a) @ s) \<longleftrightarrow> py_in old (a @ s)"
    using startswith_outside [OF c assms(2), of "a @ s"]
    by (simp only: append_Cons py_in_Cons) simp
  with Cons.IH [OF a] show ?case by simp
qed

lemma py_in_trailing:
  assumes "set b \<inter> set old = {}" "old \<noteq> []"
  shows "py_in old (s @ b) \<longleftrightarrow> py_in old s"
proof (induction s)
  case Nil
  show ?case
    using py_in_leading [OF assms, of "[]"] by simp
next
  case (Cons c s)
  have "startswith (c # s @ b) old \<longleftrightarrow> startswith (c # s) old"
    using startswith_append [OF assms(1), of "c # s"] by (simp only: append_Cons)
  with Cons.IH show ?case
    by (simp only: append_Cons py_in_Cons)
qed

lemma py_strip_decomp:
  obtains a b where "raw = a @ py_strip raw @ b"
    "\<forall>c\<in>set a. py_isspace c" "\<forall>c\<in>set b. py_isspace c"
proof -
  let ?t = "dropWhile py_isspace raw"
  let ?a = "takeWhile py_isspace raw"
  let ?b = "rev (takeWhile py_isspace (rev ?t))"
  have "rev ?t = takeWhile py_isspace (rev ?t) @ dropWhile py_isspace (rev ?t)"
    by simp
  then have "rev (rev ?t) = rev (takeWhile py_isspace (rev ?t) @ dropWhile py_isspace (rev ?t))"
    by (rule arg_cong)
  then have "?t = py_strip raw @ ?b"
    by (simp only: rev_rev_ident rev_append py_strip_def)
  moreover have "raw = ?a @ ?t" by simp
  ultimately have "raw = ?a @ py_strip raw @ ?b" by simp
  moreover have "\<forall>c\<in>set ?a. py_isspace c"
    by (auto dest: set_takeWhileD)
  moreover have "\<forall>c\<in>set ?b. py_isspace c"
    by (auto dest: set_takeWhileD)
  ultimately show ?thesis by (rule that)
qed

lemma fence_chars_not_space:
  "\<not> py_isspace CHR 0x60" "\<not> py_isspace CHR ''j''" "\<not> py_isspace CHR ''s''"
  "\<not> py_isspace CHR ''o''" "\<not> py_isspace CHR ''n''"
  by (simp_all add: py_isspace_def)

lemma space_not_in_fence:
  assumes "\<forall>c\<in>set a. py_isspace c"
  shows "set a \<inter> set ''```json'' = {}" "set a \<inter> set ''```'' = {}"
proof -
  have "\<not> py_isspace c" if "c \<in> set ''```json''" for c
  proof -
    from that have "c = CHR 0x60 \<or> c = CHR ''j'' \<or> c = CHR ''s'' \<or> c = CHR ''o'' \<or> c = CHR ''n''"
      by simp
    then show ?thesis
      using fence_chars_not_space by blast
  qed
  with assms show "set a \<inter> set ''```json'' = {}" by blast
  moreover have "set ''```'' \<subseteq> set ''```json''" by simp
  ultimately show "set a \<inter> set ''```'' = {}" by blast
qed

lemma without_fences_decomp:
  assumes "raw = a @ py_strip raw @ b"
    "\<forall>c\<in>set a. py_isspace c" "\<forall>c\<in>set b. py_isspace c"
  shows "without_fences raw = a @ unfenced raw @ b"
proof -
  let ?t = "py_strip raw"
  note da = space_not_in_fence [OF assms(2)] and db = space_not_in_fence [OF assms(3)]
  have j: "py_replace ''```json'' [] (a @ s @ b) = a @ py_replace ''```json'' [] s @ b" for s
    using py_replace_leading [OF da(1), of "s @ b"] py_replace_trailing [OF db(1), of s]
    by simp
  have f: "py_replace ''```'' [] (a @ s @ b) = a @ py_replace ''```'' [] s @ b" for s
    using py_replace_leading [OF da(2), of "s @ b"] py_replace_trailing [OF db(2), of s]
    by simp
  have i: "py_in ''```'' (a @ ?t @ b) \<longleftrightarrow> py_in ''```'' ?t"
    using py_in_leading [OF da(2), of "?t @ b"] py_in_trailing [OF db(2), of ?t]
    by simp
  have "without_fences (a @ ?t @ b) = a @ unfenced raw @ b"
    unfolding without_fences_def unfenced_def Let_def i
    by (cases "py_in ''```'' ?t") (simp_all only: if_True if_False j f)
  with assms(1) show ?thesis by simp
qed

lemma first_index_decomp:
  assumes "c \<notin> set a" "c \<in> set t"
  shows "first_index c (a @ t @ b) = length a + first_index c t"
proof -
  have "takeWhile (\<lambda>x. x \<noteq> c) (a @ t @ b) = a @ takeWhile (\<lambda>x. x \<noteq> c) (t @ b)"
    using assms(1) by (intro takeWhile_append2) auto
  also have "takeWhile (\<lambda>x. x \<noteq> c) (t @ b) = takeWhile (\<lambda>x. x \<noteq> c) t"
    using assms(2) by (intro takeWhile_append1 [of c]) auto
  finally show ?thesis
    by (simp add: first_index_def)
qed

lemma last_index_decomp:
  assumes "c \<notin> set b" "c \<in> set t"
  shows "last_index c (a @ t @ b) = length a + last_index c t"
proof -
  from assms(2) obtain p q where t: "t = p @ c # q" and q: "c \<notin> set q"
    by (meson split_list_last)
  have "c \<notin> set (q @ b)"
    using q assms(1) by simp
  then have "last_index c ((a @ p) @ c # (q @ b)) = length (a @ p)"
    by (rule last_index_split)
  moreover have "last_index c (p @ c # q) = length p"
    using q by (rule last_index_split)
  ultimately show ?thesis
    by (simp add: t)
qed

lemma substring_decomp:
  assumes "i \<le> length t" "j < length t"
  shows "substring (a @ t @ b) (length a + i) (length a + j) = substring t i j"
proof -
  have "drop (length a + i) (a @ t @ b) = drop i t @ b"
    using assms(1) by simp
  moreover have "Suc (length a + j) - (length a + i) = Suc j - i"
    by simp
  moreover have "Suc j - i \<le> length (drop i t)"
    using assms by simp
  ultimately show ?thesis
    by (simp add: substring_def)
qed

lemma bracket_not_space:
  "\<not> py_isspace CHR 0x7B" "\<not> py_isspace CHR 0x7D"
  "\<not> py_isspace CHR 0x5B" "\<not> py_isspace CHR 0x5D"
  by (simp_all add: py_isspace_def)

lemma substring_without_fences:
  assumes "opn \<in> set (unfenced raw)" "cls \<in> set (unfenced raw)"
    "\<not> py_isspace opn" "\<not> py_isspace cls"
  shows "substring (without_fences raw) (first_index opn (without_fences raw))
      (last_index cls (without_fences raw))
    = substring (unfenced raw) (first_index opn (unfenced raw)) (last_index cls (unfenced raw))"
proof -
  obtain a b where d: "raw = a @ py_strip raw @ b"
    and a: "\<forall>c\<in>set a. py_isspace c" and b: "\<forall>c\<in>set b. py_isspace c"
    by (rule py_strip_decomp)
  have w: "without_fences raw = a @ unfenced raw @ b"
    using d a b by (rule without_fences_decomp)
  have na: "opn \<notin> set a" and nb: "cls \<notin> set b"
    using a b assms(3,4) by blast+
  have f: "first_index opn (a @ unfenced raw @ b) = length a + first_index opn (unfenced raw)"
    using na assms(1) by (rule first_index_decomp)
  have l: "last_index cls (a @ unfenced raw @ b) = length a + last_index cls (unfenced raw)"
    using nb assms(2) by (rule last_index_decomp)
  have "first_index opn (unfenced raw) \<le> length (unfenced raw)"
    using first_index_less [OF assms(1)] by simp
  moreover have "last_index cls (unfenced raw) < length (unfenced raw)"
    using assms(2) by (rule last_index_less)
  ultimately show ?thesis
    unfolding w f l by (rule substring_decomp)
qed

lemma clean_object_raw:
  assumes "is_object raw" "CHR 0x7D \<in> set raw"
  shows "clean_gemini_json raw =
    substring (without_fences raw) (first_index CHR 0x7B (without_fences raw))
      (last_index CHR 0x7D (without_fences raw))"
proof -
  have o: "is_object (unfenced raw)" and c: "CHR 0x7D \<in> set (unfenced raw)"
    using assms by (simp_all only: is_object_unfenced closer_unfenced)
  then have "CHR 0x7B \<in> set (unfenced raw)"
    by (simp add: is_object_def)
  then have "substring (without_fences raw) (first_index CHR 0x7B (without_fences raw))
      (last_index CHR 0x7D (without_fences raw))
    = substring (unfenced raw) (first_index CHR 0x7B (unfenced raw))
      (last_index CHR 0x7D (unfenced raw))"
    using c bracket_not_space(1,2) by (rule substring_without_fences)
  then show ?thesis
    by (simp only: clean_object [OF o c])
qed

lemma clean_array_raw:
  assumes "is_array raw" "CHR 0x5D \<in> set raw"
  shows "clean_gemini_json raw =
    substring (without_fences raw) (first_index CHR 0x5B (without_fences raw))
      (last_index CHR 0x5D (without_fences raw))"
proof -
  have o: "is_array (unfenced raw)" and c: "CHR 0x5D \<in> set (unfenced raw)"
    using assms by (simp_all only: is_array_unfenced closer_unfenced)
  then have "CHR 0x5B \<in> set (unfenced raw)"
    by (simp add: is_array_def)
  then have "substring (without_fences raw) (first_index CHR 0x5B (without_fences raw))
      (last_index CHR 0x5D (without_fences raw))
    = substring (unfenced raw) (first_index CHR 0x5B (unfenced raw))
      (last_index CHR 0x5D (unfenced raw))"
    using c bracket_not_space(3,4) by (rule substring_without_fences)
  then show ?thesis
    by (simp only: clean_array [OF o c])
qed

text \<open>
  Claim C2, amended. The payload is an object when \<open>{\<close> occurs in the input and either
  \<open>[\<close> is absent or the first \<open>{\<close> comes strictly before the first \<open>[\<close>, and an array
  otherwise when \<open>[\<close> occurs. For an object whose input has a \<open>}\<close> the result is the
  substring, from the first \<open>{\<close> to the last \<open>}\<close> inclusive, of the input with its fence
  markers removed, and for an array whose input has a \<open>]\<close> it is the substring from the
  first \<open>[\<close> to the last \<open>]\<close> of that text; for an input without a fence marker this is
  the substring of the input itself. The two examples of the specification evaluate as
  stated, and \<open>{"a":"```"}\<close> gives \<open>{"a":""}\<close>.
\<close>

theorem clean_gemini_json_payload:
  "(is_object raw \<and> CHR 0x7D \<in> set raw \<longrightarrow>
      clean_gemini_json raw =
        substring (without_fences raw) (first_index CHR 0x7B (without_fences raw))
          (last_index CHR 0x7D (without_fences raw))) \<and>
   (is_array raw \<and> CHR 0x5D \<in> set raw \<longrightarrow>
      clean_gemini_json raw =
        substring (without_fences raw) (first_index CHR 0x5B (without_fences raw))
          (last_index CHR 0x5D (without_fences raw))) \<and>
   (\<not> py_in ''```'' raw \<and> is_object raw \<and> CHR 0x7D \<in> set raw \<longrightarrow>
      clean_gemini_json raw =
        substring raw (first_index CHR 0x7B raw) (last_index CHR 0x7D raw)) \<and>
   (\<not> py_in ''```'' raw \<and> is_array raw \<and> CHR 0x5D \<in> set raw \<longrightarrow>
      clean_gemini_json raw =
        substring raw (first_index CHR 0x5B raw) (last_index CHR 0x5D raw)) \<and>
   clean_gemini_json (''prose {'' @ [CHR 0x22] @ ''a'' @ [CHR 0x22] @ '':1} more prose'')
     = ''{'' @ [CHR 0x22] @ ''a'' @ [CHR 0x22] @ '':1}'' \<and>
   clean_gemini_json (''```json'' @ [CHR 0x0A] @ ''[1,2,3]'' @ [CHR 0x0A] @ ''```'') = ''[1,2,3]'' \<and>
   clean_gemini_json quoted_fence
     = ''{'' @ [CHR 0x22] @ ''a'' @ [CHR 0x22] @ '':'' @ [CHR 0x22, CHR 0x22] @ ''}''"
proof (intro conjI impI)
  assume "is_object raw \<and> CHR 0x7D \<in> set raw"
  then show "clean_gemini_json raw =
        substring (without_fences raw) (first_index CHR 0x7B (without_fences raw))
          (last_index CHR 0x7D (without_fences raw))"
    by (simp only: clean_object_raw)
next
  assume "is_array raw \<and> CHR 0x5D \<in> set raw"
  then show "clean_gemini_json raw =
        substring (without_fences raw) (first_index CHR 0x5B (without_fences raw))
          (last_index CHR 0x5D (without_fences raw))"
    by (simp only: clean_array_raw)
next
  assume a: "\<not> py_in ''```'' raw \<and> is_object raw \<and> CHR 0x7D \<in> set raw"
  then have "without_fences raw = raw"
    by (simp only: without_fences_def if_False)
  with a clean_object_raw [of raw]
  show "clean_gemini_json raw =
        substring raw (first_index CHR 0x7B raw) (last_index CHR 0x7D raw)"
    by simp
next
  assume a: "\<not> py_in ''```'' raw \<and> is_array raw \<and> CHR 0x5D \<in> set raw"
  then have "without_fences raw = raw"
    by (simp only: without_fences_def if_False)
  with a clean_array_raw [of raw]
  show "clean_gemini_json raw =
        substring raw (first_index CHR 0x5B raw) (last_index CHR 0x5D raw)"
    by simp
next
  show "clean_gemini_json (''prose {'' @ [CHR 0x22] @ ''a'' @ [CHR 0x22] @ '':1} more prose'')
     = ''{'' @ [CHR 0x22] @ ''a'' @ [CHR 0x22] @ '':1}''"
    by code_simp
  show "clean_gemini_json (''```json'' @ [CHR 0x0A] @ ''[1,2,3]'' @ [CHR 0x0A] @ ''```'') = ''[1,2,3]''"
    by code_simp
  show "clean_gemini_json quoted_fence
     = ''{'' @ [CHR 0x22] @ ''a'' @ [CHR 0x22] @ '':'' @ [CHR 0x22, CHR 0x22] @ ''}''"
    by code_simp
qed

text \<open>The hypotheses of C2 discharged at inputs with and without fence markers.\<close>

theorem clean_gemini_json_payload_witness:
  "(\<not> py_in ''```'' '' a{b[c]}d}e '' \<and> is_object '' a{b[c]}d}e '' \<and>
      CHR 0x7D \<in> set '' a{b[c]}d}e '') \<and>
   clean_gemini_json '' a{b[c]}d}e '' = ''{b[c]}d}'' \<and>
   (\<not> py_in ''```'' '' a[b{c}]d]e '' \<and> is_array '' a[b{c}]d]e '' \<and>
      CHR 0x5D \<in> set '' a[b{c}]d]e '') \<and>
   clean_gemini_json '' a[b{c}]d]e '' = ''[b{c}]d]'' \<and>
   (is_object ''```{``` }```'' \<and> CHR 0x7D \<in> set ''```{``` }```'') \<and>
   clean_gemini_json ''```{``` }```'' = ''{ }'' \<and>
   (is_array ''```[``` ]```'' \<and> CHR 0x5D \<in> set ''```[``` ]```'') \<and>
   clean_gemini_json ''```[``` ]```'' = ''[ ]''"
proof -
  have o: "\<not> py_in ''```'' '' a{b[c]}d}e '' \<and> is_object '' a{b[c]}d}e '' \<and>
      CHR 0x7D \<in> set '' a{b[c]}d}e ''"
    by code_simp
  have so: "substring '' a{b[c]}d}e '' (first_index CHR 0x7B '' a{b[c]}d}e '')
      (last_index CHR 0x7D '' a{b[c]}d}e '') = ''{b[c]}d}''"
    by code_simp
  have a: "\<not> py_in ''```'' '' a[b{c}]d]e '' \<and> is_array '' a[b{c}]d]e '' \<and>
      CHR 0x5D \<in> set '' a[b{c}]d]e ''"
    by code_simp
  have sa: "substring '' a[b{c}]d]e '' (first_index CHR 0x5B '' a[b{c}]d]e '')
      (last_index CHR 0x5D '' a[b{c}]d]e '') = ''[b{c}]d]''"
    by code_simp
  have fo: "is_object ''```{``` }```'' \<and> CHR 0x7D \<in> set ''```{``` }```''"
    by code_simp
  have sfo: "substring (without_fences ''```{``` }```'')
      (first_index CHR 0x7B (without_fences ''```{``` }```''))
      (last_index CHR 0x7D (without_fences ''```{``` }```'')) = ''{ }''"
    by code_simp
  have fa: "is_array ''```[``` ]```'' \<and> CHR 0x5D \<in> set ''```[``` ]```''"
    by code_simp
  have sfa: "substring (without_fences ''```[``` ]```'')
      (first_index CHR 0x5B (without_fences ''```[``` ]```''))
      (last_index CHR 0x5D (without_fences ''```[``` ]```'')) = ''[ ]''"
    by code_simp
  have r1: "clean_gemini_json '' a{b[c]}d}e '' = ''{b[c]}d}''"
    using mp [OF clean_gemini_json_payload
        [of "'' a{b[c]}d}e ''", THEN conjunct2, THEN conjunct2, THEN conjunct1] o]
    by (simp only: so)
  have r2: "clean_gemini_json '' a[b{c}]d]e '' = ''[b{c}]d]''"
    using mp [OF clean_gemini_json_payload
        [of "'' a[b{c}]d]e ''", THEN conjunct2, THEN conjunct2, THEN conjunct2, THEN conjunct1] a]
    by (simp only: sa)
  have r3: "clean_gemini_json ''```{``` }```'' = ''{ }''"
    using mp [OF clean_gemini_json_payload [of "''```{``` }```''", THEN conjunct1] fo]
    by (simp only: sfo)
  have r4: "clean_gemini_json ''```[``` ]```'' = ''[ ]''"
    using mp [OF clean_gemini_json_payload
        [of "''```[``` ]```''", THEN conjunct2, THEN conjunct1] fa]
    by (simp only: sfa)
  show ?thesis
    using o a fo fa r1 r2 r3 r4 by blast
qed

text \<open>
  Claim C2 as stated fails for \<open>{"a":"```"}\<close>: the substring of the input from its first
  \<open>{\<close> to its last \<open>}\<close> is the whole input, and the result has lost the fence marker.
\<close>

theorem clean_gemini_json_payload_counterexample:
  "is_object quoted_fence \<and> CHR 0x7D \<in> set quoted_fence \<and>
   substring quoted_fence (first_index CHR 0x7B quoted_fence) (last_index CHR 0x7D quoted_fence)
     = quoted_fence \<and>
   clean_gemini_json quoted_fence
     \<noteq> substring quoted_fence (first_index CHR 0x7B quoted_fence)
         (last_index CHR 0x7D quoted_fence)"
  by code_simp

section \<open>Properties of the quiz generator\<close>

lemma round53_small: "\<bar>m\<bar> < 2 ^ 53 \<Longrightarrow> round53 (m, e) = (m, e)"
  by (simp add: round53_def bitlen_le_iff_power)

lemma int_to_float_small:
  assumes "\<bar>n\<bar> < 2 ^ 53"
  shows "int_to_float n = Inr (n, 0)"
proof -
  have "\<bar>n\<bar> < (2 :: int) ^ 1024"
    using assms by (rule less_trans) simp
  then show ?thesis
    using assms by (simp add: int_to_float_def round53_small)
qed

lemma desired_mcq_small:
  assumes "\<bar>n\<bar> < 2 ^ 53"
  shows "desired_mcq n = Inr ((n + 1) div 2)"
proof -
  have "- ((- n) div 2) = (n + 1) div 2" by presburger
  then show ?thesis
    using assms by (simp add: desired_mcq_def int_to_float_small times_half_def math_ceil_def)
qed

lemma ceiling_half: "\<lceil>real_of_int n * 0.5\<rceil> = (n + 1) div 2"
proof -
  have "real_of_int n * 0.5 = real_of_int n / real_of_int 2" by simp
  then have "\<lceil>real_of_int n * 0.5\<rceil> = - ((- n) div 2)"
    by (simp only: ceiling_divide_eq_div)
  then show ?thesis by presburger
qed

text \<open>
  Claim C5. For every count from 1 to 50 the two targets are computed without error,
  \<open>desired_mcq\<close> is the ceiling of half the count, \<open>desired_open\<close> is the count minus
  \<open>desired_mcq\<close>, and they add up to the count; these are the numbers written into the
  prompt that is posted.
\<close>

theorem composition_targets:
  "1 \<le> count \<and> count \<le> 50 \<longrightarrow>
     (\<exists>m opn. desired_mcq count = Inr m \<and> desired_open count = Inr opn \<and>
        m = \<lceil>real_of_int count * 0.5\<rceil> \<and> opn = count - m \<and> m + opn = count \<and>
        snd (generate_quiz_logic svc program_text count posted)
          = posted @ [full_prompt program_text count m opn])"
proof
  assume a: "1 \<le> count \<and> count \<le> 50"
  then have "\<bar>count\<bar> < 2 ^ 53" by simp
  then have m: "desired_mcq count = Inr ((count + 1) div 2)"
    by (rule desired_mcq_small)
  then have o: "desired_open count = Inr (count - (count + 1) div 2)"
    by (simp add: desired_open_def)
  have p: "snd (generate_quiz_logic svc program_text count posted)
      = posted @ [full_prompt program_text count ((count + 1) div 2) (count - (count + 1) div 2)]"
    using a m by (simp add: generate_quiz_logic_def Let_def split: reply.split)
  show "\<exists>m opn. desired_mcq count = Inr m \<and> desired_open count = Inr opn \<and>
        m = \<lceil>real_of_int count * 0.5\<rceil> \<and> opn = count - m \<and> m + opn = count \<and>
        snd (generate_quiz_logic svc program_text count posted)
          = posted @ [full_prompt program_text count m opn]"
    using m o p unfolding ceiling_half by simp
qed

text \<open>The hypothesis of C5 discharged at count 7.\<close>

theorem composition_targets_witness:
  "(1 :: int) \<le> 7 \<and> (7 :: int) \<le> 50 \<and> desired_mcq 7 = Inr 4 \<and> desired_open 7 = Inr 3"
proof -
  show ?thesis
    using composition_targets [of 7] unfolding ceiling_half by auto
qed

lemma quiz_from_body_not_ValueError: "quiz_from_body svc body \<noteq> Inl ValueError"
  by (simp add: quiz_from_body_def split: sum.split)

lemma int_to_float_error: "int_to_float n = Inl e \<Longrightarrow> e = OverflowError"
  by (simp add: int_to_float_def Let_def split: if_splits)

lemma desired_mcq_error: "desired_mcq n = Inl e \<Longrightarrow> e = OverflowError"
  by (auto simp: desired_mcq_def split: sum.splits dest: int_to_float_error)

text \<open>
  Claim C7. For every source text and every count of at most 0 the generator fails with
  \<open>ValueError\<close> and the list of posted prompts is unchanged, so no completion call was
  made; for a positive count the result is never that \<open>ValueError\<close>.
\<close>

theorem count_validation:
  "(count \<le> 0 \<longrightarrow>
      generate_quiz_logic svc program_text count posted = (Inl ValueError, posted)) \<and>
   (0 < count \<longrightarrow>
      fst (generate_quiz_logic svc program_text count posted) \<noteq> Inl ValueError)"
proof (intro conjI impI)
  assume "count \<le> 0"
  then show "generate_quiz_logic svc program_text count posted = (Inl ValueError, posted)"
    by (simp add: generate_quiz_logic_def)
next
  assume pos: "0 < count"
  show "fst (generate_quiz_logic svc program_text count posted) \<noteq> Inl ValueError"
  proof (cases "desired_mcq count")
    case (Inl e)
    then have "e = OverflowError" by (rule desired_mcq_error)
    with Inl pos show ?thesis
      by (simp add: generate_quiz_logic_def)
  next
    case (Inr m)
    with pos show ?thesis
      by (simp add: generate_quiz_logic_def Let_def quiz_from_body_not_ValueError
          split: reply.split)
  qed
qed

lemma key_present: "k \<in> set (map fst kvs) \<longleftrightarrow> map_of kvs k \<noteq> None"
  by (simp add: map_of_eq_None_iff)

lemma parsed_replyE:
  assumes "parsed_reply svc program_text count parsed"
  obtains m b raw where
    "desired_mcq count = Inr m"
    "post svc (full_prompt program_text count m (count - m)) = Body (Some b)"
    "candidate_text b = Inr (JStr raw)"
    "loads svc (clean_gemini_json raw) = Some parsed"
proof (cases "desired_mcq count")
  case (Inl e)
  with assms show ?thesis by (simp add: parsed_reply_def)
next
  case m: (Inr m)
  show ?thesis
  proof (cases "post svc (full_prompt program_text count m (count - m))")
    case Request_failed
    with assms m show ?thesis by (simp add: parsed_reply_def)
  next
    case (Body body)
    show ?thesis
    proof (cases body)
      case None
      with assms m Body show ?thesis by (simp add: parsed_reply_def)
    next
      case (Some b)
      show ?thesis
      proof (cases "candidate_text b")
        case (Inl e)
        with assms m Body Some show ?thesis by (simp add: parsed_reply_def)
      next
        case (Inr v)
        show ?thesis
        proof (cases v)
          case (JStr raw)
          with assms m Body Some Inr
          have "loads svc (clean_gemini_json raw) = Some parsed"
            by (simp add: parsed_reply_def)
          with m Body Some Inr JStr that show ?thesis by simp
        qed (use assms m Body Some Inr in \<open>simp_all add: parsed_reply_def\<close>)
      qed
    qed
  qed
qed

lemma generate_quiz_logic_parsed:
  assumes "0 < count" "parsed_reply svc program_text count parsed"
  shows "fst (generate_quiz_logic svc program_text count posted)
    = (case parse_questions parsed of
         Inl e \<Rightarrow> Inl (Errore_parsing_Gemini e)
       | Inr qs \<Rightarrow> Inr qs)"
proof -
  from assms(2) obtain m b raw where
    m: "desired_mcq count = Inr m"
    and p: "post svc (full_prompt program_text count m (count - m)) = Body (Some b)"
    and c: "candidate_text b = Inr (JStr raw)"
    and l: "loads svc (clean_gemini_json raw) = Some parsed"
    by (rule parsed_replyE)
  have "quiz_from_body svc (Some b)
      = (case parse_questions parsed of
           Inl e \<Rightarrow> Inl (Errore_parsing_Gemini e)
         | Inr qs \<Rightarrow> Inr qs)"
    using c l by (simp add: quiz_from_body_def bind_def clean_value_def json_loads_def)
  then show ?thesis
    using assms(1) m p by (simp add: generate_quiz_logic_def Let_def)
qed

lemma generate_quiz_logic_accepts:
  assumes "0 < count" "parsed_reply svc program_text count parsed"
  shows "parsed = JArr xs \<Longrightarrow>
      fst (generate_quiz_logic svc program_text count posted) = Inr (JArr xs)"
    and "parsed = JObj kvs \<Longrightarrow> map_of kvs ''questions'' = Some v \<Longrightarrow>
      fst (generate_quiz_logic svc program_text count posted) = Inr v"
    and "parsed = JObj kvs \<Longrightarrow> map_of kvs ''questions'' = None \<Longrightarrow>
      fst (generate_quiz_logic svc program_text count posted)
        = Inl (Errore_parsing_Gemini Formato_imprevisto)"
proof -
  note g = generate_quiz_logic_parsed [OF assms, of posted]
  show "parsed = JArr xs \<Longrightarrow>
      fst (generate_quiz_logic svc program_text count posted) = Inr (JArr xs)"
    by (simp add: g parse_questions_def)
  show "parsed = JObj kvs \<Longrightarrow> map_of kvs ''questions'' = Some v \<Longrightarrow>
      fst (generate_quiz_logic svc program_text count posted) = Inr v"
    by (simp add: g parse_questions_def subscript_def key_present del: set_map)
  show "parsed = JObj kvs \<Longrightarrow> map_of kvs ''questions'' = None \<Longrightarrow>
      fst (generate_quiz_logic svc program_text count posted)
        = Inl (Errore_parsing_Gemini Formato_imprevisto)"
    by (simp add: g parse_questions_def key_present del: set_map)
qed

lemma parsed_reply_fixed:
  "\<bar>count\<bar> < 2 ^ 53 \<Longrightarrow> parsed_reply (fixed_service t v) program_text count v"
  by (simp add: parsed_reply_def desired_mcq_small fixed_service_def reply_with_def
      candidate_text_def bind_def subscript_def index0_def)

text \<open>
  Claim C6. The claim holds of a bare array, of an object with a \<open>questions\<close> key and of
  an object without it, which fails with the unexpected-format error inside \<open>Errore
  parsing Gemini\<close>. A reply that parses to the number 5 has another shape too, and there
  the code fails with a \<open>TypeError\<close> inside \<open>Errore parsing Gemini\<close>: the test
  \<open>"questions" in parsed\<close> of line 135 raises before line 138 is reached.
\<close>

theorem unexpected_shape_type_error:
  "parsed_reply (fixed_service ''5'' (JInt 5)) ''notes'' 3 (JInt 5) \<and>
   other_shape (JInt 5) \<and>
   fst (generate_quiz_logic (fixed_service ''5'' (JInt 5)) ''notes'' 3 [])
     = Inl (Errore_parsing_Gemini TypeError) \<and>
   parsed_reply (fixed_service ''{}'' (JObj [])) ''notes'' 3 (JObj []) \<and>
   other_shape (JObj []) \<and>
   fst (generate_quiz_logic (fixed_service ''{}'' (JObj [])) ''notes'' 3 [])
     = Inl (Errore_parsing_Gemini Formato_imprevisto)"
proof -
  have a: "parsed_reply (fixed_service ''5'' (JInt 5)) ''notes'' 3 (JInt 5)"
    by (rule parsed_reply_fixed) simp
  then have b: "fst (generate_quiz_logic (fixed_service ''5'' (JInt 5)) ''notes'' 3 [])
     = Inl (Errore_parsing_Gemini TypeError)"
    by (simp add: generate_quiz_logic_parsed parse_questions_def)
  have c: "parsed_reply (fixed_service ''{}'' (JObj [])) ''notes'' 3 (JObj [])"
    by (rule parsed_reply_fixed) simp
  then have d: "fst (generate_quiz_logic (fixed_service ''{}'' (JObj [])) ''notes'' 3 [])
     = Inl (Errore_parsing_Gemini Formato_imprevisto)"
    by (simp add: generate_quiz_logic_accepts(3) [of 3 _ _ _ "[]"])
  show ?thesis
    using a b c d by (simp add: other_shape_def)
qed

text \<open>The hypotheses of C7 discharged at the counts -5, 0 and 3.\<close>

theorem count_validation_witness:
  "(- 5 :: int) \<le> 0 \<and>
   generate_quiz_logic (fixed_service ''[]'' (JArr [])) ''notes'' (- 5) [] = (Inl ValueError, []) \<and>
   generate_quiz_logic (fixed_service ''[]'' (JArr [])) ''notes'' 0 [] = (Inl ValueError, []) \<and>
   (0 :: int) < 3 \<and>
   fst (generate_quiz_logic (fixed_service ''[]'' (JArr [])) ''notes'' 3 []) \<noteq> Inl ValueError"
  using count_validation [of "- 5" "fixed_service ''[]'' (JArr [])" "''notes''" "[]"]
    count_validation [of 0 "fixed_service ''[]'' (JArr [])" "''notes''" "[]"]
    count_validation [of 3 "fixed_service ''[]'' (JArr [])" "''notes''" "[]"]
  by simp

section \<open>Properties of the grader\<close>

lemma well_formedE:
  assumes "well_formed q"
  obtains kvs tx qt a where
    "q = JObj kvs" "map_of kvs ''text'' = Some tx" "map_of kvs ''qtype'' = Some qt"
    "map_of kvs ''answer'' = Some (JStr a)"
proof (cases q)
  case (JObj kvs)
  with assms have t: "map_of kvs ''text'' \<noteq> None" and q: "map_of kvs ''qtype'' \<noteq> None"
    and a: "(case map_of kvs ''answer'' of Some (JStr a) \<Rightarrow> True | _ \<Rightarrow> False)"
    by (simp_all add: well_formed_def)
  from a obtain v where v: "map_of kvs ''answer'' = Some v"
    by (cases "map_of kvs ''answer''") simp_all
  with a obtain s where "v = JStr s"
    by (cases v) simp_all
  with v t q JObj that show ?thesis by blast
qed (use assms in \<open>simp_all add: well_formed_def\<close>)

lemma form_get_trimmed:
  "py_strip (form_get form (''q'' @ py_str_int (int i)) []) = trimmed_answer form i"
  by (simp add: form_get_def trimmed_answer_def split: option.split)

lemma grade_question_wf:
  assumes "well_formed q"
  shows "grade_question form i q t = Inr (record_outcome (graded form i q) t)"
proof -
  from assms obtain kvs tx qt a where q: "q = JObj kvs"
    and tx: "map_of kvs ''text'' = Some tx" and qt: "map_of kvs ''qtype'' = Some qt"
    and a: "map_of kvs ''answer'' = Some (JStr a)"
    by (rule well_formedE)
  have f: "field q ''text'' = tx" "field q ''qtype'' = qt" "field q ''answer'' = JStr a"
    "answer_of q = a"
    using q tx qt a by (simp_all add: field_def answer_of_def subscript_def)
  have s: "subscript q ''text'' = Inr tx" "subscript q ''qtype'' = Inr qt"
    "subscript q ''answer'' = Inr (JStr a)"
    using q tx qt a by (simp_all add: subscript_def)
  let ?ans = "trimmed_answer form i"
  have ad: "append_detail q ans r t' =
      Inr (t'\<lparr>details := details t' @
        [\<lparr>text = tx, user_answer = ans, correct_answer = JStr a, result = r\<rparr>]\<rparr>)" for ans r t'
    by (simp add: append_detail_def s)
  have ic: "is_correct_of q ?ans =
      Inr (if qt = JStr ''mcq'' then ?ans = a else py_lower ?ans = py_lower a)"
    by (simp add: is_correct_of_def s str_lower_def)
  show ?thesis
  proof (cases "?ans = []")
    case True
    then show ?thesis
      unfolding grade_question_def Let_def form_get_trimmed
      by (simp add: ad record_outcome_def graded_def outcome_def f contribution_def)
  next
    case False
    then show ?thesis
      unfolding grade_question_def Let_def form_get_trimmed
      by (simp add: ad ic record_outcome_def graded_def outcome_def f contribution_def)
  qed
qed

lemma graded_list_Nil: "graded_list form i [] = []"
  by (simp add: graded_list_def)

lemma graded_list_Cons:
  "graded_list form i (q # qs) = graded form i q # graded_list form (Suc i) qs"
proof -
  have "[i..<i + length (q # qs)] = i # [Suc i..<Suc i + length qs]"
    by (subst upt_rec) simp
  then show ?thesis
    by (simp only: graded_list_def zip_Cons_Cons list.map prod.case)
qed

lemma grade_loop_wf:
  "list_all well_formed qs \<Longrightarrow>
   grade_loop form i qs t = Inr (foldl (\<lambda>t d. record_outcome d t) t (graded_list form i qs))"
proof (induction qs arbitrary: i t)
  case Nil
  show ?case by (simp add: graded_list_Nil)
next
  case (Cons q qs)
  then have "well_formed q" "list_all well_formed qs" by simp_all
  then show ?case
    by (simp add: grade_question_wf graded_list_Cons Cons.IH)
qed

lemma fold_details:
  "details (foldl (\<lambda>t d. record_outcome d t) t ds) = details t @ ds"
  by (induction ds arbitrary: t) (simp_all add: record_outcome_def)

lemma fold_score:
  "score (foldl (\<lambda>t d. record_outcome d t) t ds)
     = foldl (\<lambda>s r. contribution r s) (score t) (map result ds)"
  by (induction ds arbitrary: t) (simp_all add: record_outcome_def)

lemma fold_correct:
  "correct (foldl (\<lambda>t d. record_outcome d t) t ds)
     = correct t + count_of ''correct'' (map result ds)"
  by (induction ds arbitrary: t) (simp_all add: record_outcome_def count_of_def)

lemma fold_wrong:
  "wrong (foldl (\<lambda>t d. record_outcome d t) t ds)
     = wrong t + count_of ''wrong'' (map result ds)"
  by (induction ds arbitrary: t) (simp_all add: record_outcome_def count_of_def)

lemma fold_blank:
  "blank (foldl (\<lambda>t d. record_outcome d t) t ds)
     = blank t + count_of ''blank'' (map result ds)"
  by (induction ds arbitrary: t) (simp_all add: record_outcome_def count_of_def)

lemma submit_quiz_graded:
  assumes "session_questions st = Some (JArr qs)" "qs \<noteq> []" "list_all well_formed qs"
  shows "submit_quiz form st =
    (Inr (Render_result
       \<lparr>rp_total = int (length qs),
        rp_correct = count_of ''correct'' (map result (graded_list form 0 qs)),
        rp_wrong = count_of ''wrong'' (map result (graded_list form 0 qs)),
        rp_blank = count_of ''blank'' (map result (graded_list form 0 qs)),
        rp_score = format_2f (running_score (map result (graded_list form 0 qs))),
        rp_details = graded_list form 0 qs\<rparr>),
     st\<lparr>session_questions := None\<rparr>)"
  using assms
  by (simp add: submit_quiz_def truthy_def py_iter_def py_len_def grade_loop_wf
      fold_details fold_score fold_correct fold_wrong fold_blank running_score_def)

lemma length_graded_list: "length (graded_list form i qs) = length qs"
  by (simp add: graded_list_def)

lemma graded_list_nth:
  "k < length qs \<Longrightarrow> graded_list form i qs ! k = graded form (i + k) (qs ! k)"
  by (simp add: graded_list_def)

lemma graded_list_map:
  "graded_list form 0 qs = map (\<lambda>i. graded form i (qs ! i)) [0..<length qs]"
  by (rule nth_equalityI) (simp_all add: length_graded_list graded_list_nth)

lemma outcome_range:
  "outcome q ans = ''correct'' \<or> outcome q ans = ''wrong'' \<or> outcome q ans = ''blank''"
  by (simp add: outcome_def)

lemma count_partition:
  "(\<forall>r \<in> set rs. r = ''correct'' \<or> r = ''wrong'' \<or> r = ''blank'') \<Longrightarrow>
   count_of ''correct'' rs + count_of ''wrong'' rs + count_of ''blank'' rs = int (length rs)"
  by (induction rs) (auto simp: count_of_def)

lemma results_range:
  "\<forall>r \<in> set (map result (graded_list form i qs)).
     r = ''correct'' \<or> r = ''wrong'' \<or> r = ''blank''"
  using outcome_range by (fastforce simp: graded_list_def graded_def)





text \<open>
  Claim C1. For a pending list of well-formed questions the grader returns a result page
  with one entry per question; the entry at index \<open>i\<close> holds the submitted answer for
  \<open>i\<close>, trimmed, a missing entry counting as empty, and its outcome is \<open>blank\<close> when that
  answer is empty, otherwise \<open>correct\<close> exactly when it equals the answer (for \<open>mcq\<close>) or
  equals it after lowering both (for any other type), otherwise \<open>wrong\<close>. The two examples
  of the specification evaluate as stated.
\<close>

theorem grading_outcomes:
  "(session_questions st = Some (JArr qs) \<and> qs \<noteq> [] \<and> list_all well_formed qs \<longrightarrow>
      (\<exists>page. submit_quiz form st = (Inr (Render_result page), st\<lparr>session_questions := None\<rparr>) \<and>
         length (rp_details page) = length qs \<and>
         (\<forall>i<length qs.
            user_answer (rp_details page ! i) = trimmed_answer form i \<and>
            result (rp_details page ! i) = outcome (qs ! i) (trimmed_answer form i)))) \<and>
   map_option (map result \<circ> rp_details)
     (page_of (submit_quiz [''q0'' \<mapsto> '' a ''] (pending [question ''Q'' ''mcq'' ''A''])))
     = Some [''wrong''] \<and>
   map_option (map result \<circ> rp_details)
     (page_of (submit_quiz [''q0'' \<mapsto> '' paris ''] (pending [question ''Q'' ''open'' ''Paris''])))
     = Some [''correct'']"
proof (intro conjI impI)
  assume h: "session_questions st = Some (JArr qs) \<and> qs \<noteq> [] \<and> list_all well_formed qs"
  let ?page = "\<lparr>rp_total = int (length qs),
        rp_correct = count_of ''correct'' (map result (graded_list form 0 qs)),
        rp_wrong = count_of ''wrong'' (map result (graded_list form 0 qs)),
        rp_blank = count_of ''blank'' (map result (graded_list form 0 qs)),
        rp_score = format_2f (running_score (map result (graded_list form 0 qs))),
        rp_details = graded_list form 0 qs\<rparr>"
  have "submit_quiz form st = (Inr (Render_result ?page), st\<lparr>session_questions := None\<rparr>)"
    using h by (simp add: submit_quiz_graded)
  moreover have "length (rp_details ?page) = length qs"
    by (simp add: length_graded_list)
  moreover have "\<forall>i<length qs.
            user_answer (rp_details ?page ! i) = trimmed_answer form i \<and>
            result (rp_details ?page ! i) = outcome (qs ! i) (trimmed_answer form i)"
    by (simp add: graded_list_nth graded_def)
  ultimately show "\<exists>page. submit_quiz form st
        = (Inr (Render_result page), st\<lparr>session_questions := None\<rparr>) \<and>
         length (rp_details page) = length qs \<and>
         (\<forall>i<length qs.
            user_answer (rp_details page ! i) = trimmed_answer form i \<and>
            result (rp_details page ! i) = outcome (qs ! i) (trimmed_answer form i))"
    by blast
next
  show "map_option (map result \<circ> rp_details)
     (page_of (submit_quiz [''q0'' \<mapsto> '' a ''] (pending [question ''Q'' ''mcq'' ''A''])))
     = Some [''wrong'']"
    by code_simp
  show "map_option (map result \<circ> rp_details)
     (page_of (submit_quiz [''q0'' \<mapsto> '' paris ''] (pending [question ''Q'' ''open'' ''Paris''])))
     = Some [''correct'']"
    by code_simp
qed

lemma sample_pending:
  "session_questions (pending sample_questions) = Some (JArr sample_questions) \<and>
   sample_questions \<noteq> [] \<and> list_all well_formed sample_questions"
  by (simp add: pending_def well_formed_def question_def sample_questions_def)

text \<open>
  The hypotheses of C1 discharged for a list of three questions.
\<close>

theorem grading_outcomes_witness:
  "(session_questions (pending sample_questions) = Some (JArr sample_questions) \<and>
    sample_questions \<noteq> [] \<and> list_all well_formed sample_questions) \<and>
   (\<exists>page. submit_quiz sample_form (pending sample_questions)
        = (Inr (Render_result page), (pending sample_questions)\<lparr>session_questions := None\<rparr>) \<and>
      length (rp_details page) = 3 \<and>
      user_answer (rp_details page ! 0) = ''B'' \<and> result (rp_details page ! 0) = ''correct'' \<and>
      user_answer (rp_details page ! 1) = ''Milan'' \<and> result (rp_details page ! 1) = ''wrong'' \<and>
      user_answer (rp_details page ! 2) = [] \<and> result (rp_details page ! 2) = ''blank'')"
proof -
  from grading_outcomes [of "pending sample_questions" sample_questions sample_form]
  have "session_questions (pending sample_questions) = Some (JArr sample_questions) \<and>
      sample_questions \<noteq> [] \<and> list_all well_formed sample_questions \<longrightarrow>
      (\<exists>page. submit_quiz sample_form (pending sample_questions)
          = (Inr (Render_result page), (pending sample_questions)\<lparr>session_questions := None\<rparr>) \<and>
         length (rp_details page) = length sample_questions \<and>
         (\<forall>i<length sample_questions.
            user_answer (rp_details page ! i) = trimmed_answer sample_form i \<and>
            result (rp_details page ! i)
              = outcome (sample_questions ! i) (trimmed_answer sample_form i)))"
    by (rule conjunct1)
  then obtain page where
    p: "submit_quiz sample_form (pending sample_questions)
          = (Inr (Render_result page), (pending sample_questions)\<lparr>session_questions := None\<rparr>)"
    and l: "length (rp_details page) = length sample_questions"
    and d: "\<And>i. i < length sample_questions \<Longrightarrow>
            user_answer (rp_details page ! i) = trimmed_answer sample_form i \<and>
            result (rp_details page ! i)
              = outcome (sample_questions ! i) (trimmed_answer sample_form i)"
    using sample_pending by blast
  have n: "length sample_questions = 3"
    by (simp add: sample_questions_def)
  have t: "trimmed_answer sample_form 0 = ''B''" "trimmed_answer sample_form 1 = ''Milan''"
    "trimmed_answer sample_form 2 = []"
    by code_simp+
  have o: "outcome (sample_questions ! 0) ''B'' = ''correct''"
    "outcome (sample_questions ! 1) ''Milan'' = ''wrong''"
    "outcome (sample_questions ! 2) [] = ''blank''"
    by code_simp+
  have i: "0 < length sample_questions" "1 < length sample_questions"
    "2 < length sample_questions"
    by (simp_all add: n)
  have "user_answer (rp_details page ! 0) = ''B'' \<and> result (rp_details page ! 0) = ''correct''"
    using d [OF i(1)] by (simp only: t o)
  moreover
  have "user_answer (rp_details page ! 1) = ''Milan'' \<and> result (rp_details page ! 1) = ''wrong''"
    using d [OF i(2)] by (simp only: t o)
  moreover
  have "user_answer (rp_details page ! 2) = [] \<and> result (rp_details page ! 2) = ''blank''"
    using d [OF i(3)] by (simp only: t o)
  moreover have "length (rp_details page) = 3"
    using l n by (rule trans)
  ultimately show ?thesis
    using p sample_pending by blast
qed

text \<open>
  Claim C8. For a pending list of well-formed questions the result page satisfies
  \<open>correct + wrong + blank = total\<close>, \<open>total\<close> is the number of questions, and
  \<open>details\<close> holds, in the order of the questions, the text of each question, the trimmed
  submitted answer, the canonical answer and the outcome.
\<close>

theorem result_invariant:
  "session_questions st = Some (JArr qs) \<and> qs \<noteq> [] \<and> list_all well_formed qs \<longrightarrow>
     (\<exists>page. submit_quiz form st = (Inr (Render_result page), st\<lparr>session_questions := None\<rparr>) \<and>
        rp_correct page + rp_wrong page + rp_blank page = rp_total page \<and>
        rp_total page = int (length qs) \<and>
        rp_details page =
          map (\<lambda>i. \<lparr>text = field (qs ! i) ''text'',
                     user_answer = trimmed_answer form i,
                     correct_answer = field (qs ! i) ''answer'',
                     result = outcome (qs ! i) (trimmed_answer form i)\<rparr>)
            [0..<length qs])"
proof
  assume h: "session_questions st = Some (JArr qs) \<and> qs \<noteq> [] \<and> list_all well_formed qs"
  let ?rs = "map result (graded_list form 0 qs)"
  let ?page = "\<lparr>rp_total = int (length qs),
        rp_correct = count_of ''correct'' ?rs,
        rp_wrong = count_of ''wrong'' ?rs,
        rp_blank = count_of ''blank'' ?rs,
        rp_score = format_2f (running_score ?rs),
        rp_details = graded_list form 0 qs\<rparr>"
  have "submit_quiz form st = (Inr (Render_result ?page), st\<lparr>session_questions := None\<rparr>)"
    using h by (simp add: submit_quiz_graded)
  moreover have "count_of ''correct'' ?rs + count_of ''wrong'' ?rs + count_of ''blank'' ?rs
      = int (length ?rs)"
    by (rule count_partition) (rule results_range)
  then have "rp_correct ?page + rp_wrong ?page + rp_blank ?page = rp_total ?page"
    by (simp add: length_graded_list)
  moreover have "rp_total ?page = int (length qs)"
    by simp
  moreover have "rp_details ?page =
          map (\<lambda>i. \<lparr>text = field (qs ! i) ''text'',
                     user_answer = trimmed_answer form i,
                     correct_answer = field (qs ! i) ''answer'',
                     result = outcome (qs ! i) (trimmed_answer form i)\<rparr>)
            [0..<length qs]"
    by (simp add: graded_list_map graded_def)
  ultimately show "\<exists>page. submit_quiz form st
        = (Inr (Render_result page), st\<lparr>session_questions := None\<rparr>) \<and>
        rp_correct page + rp_wrong page + rp_blank page = rp_total page \<and>
        rp_total page = int (length qs) \<and>
        rp_details page =
          map (\<lambda>i. \<lparr>text = field (qs ! i) ''text'',
                     user_answer = trimmed_answer form i,
                     correct_answer = field (qs ! i) ''answer'',
                     result = outcome (qs ! i) (trimmed_answer form i)\<rparr>)
            [0..<length qs]"
    by blast
qed

text \<open>
  The hypotheses of C8 discharged for a list of three questions.
\<close>

theorem result_invariant_witness:
  "(session_questions (pending sample_questions) = Some (JArr sample_questions) \<and>
    sample_questions \<noteq> [] \<and> list_all well_formed sample_questions) \<and>
   (\<exists>page. submit_quiz sample_form (pending sample_questions)
        = (Inr (Render_result page), (pending sample_questions)\<lparr>session_questions := None\<rparr>) \<and>
        rp_correct page + rp_wrong page + rp_blank page = rp_total page \<and>
        rp_total page = int (length sample_questions) \<and>
        rp_details page =
          map (\<lambda>i. \<lparr>text = field (sample_questions ! i) ''text'',
                     user_answer = trimmed_answer sample_form i,
                     correct_answer = field (sample_questions ! i) ''answer'',
                     result = outcome (sample_questions ! i) (trimmed_answer sample_form i)\<rparr>)
            [0..<length sample_questions])"
  using sample_pending
    mp [OF result_invariant [of "pending sample_questions" sample_questions sample_form]
      sample_pending]
  by (rule conjI)






section \<open>Properties of the flashcards path\<close>

lemma py_replace_char:
  "py_replace [a] [b] s = map (\<lambda>c. if c = a then b else c) s"
  by (induction s) (simp_all add: startswith_single)

lemma py_slice_prefix: "py_slice s 0 (int n) = take n s"
  by (simp add: py_slice_def Let_def min_def)

lemma title_label:
  "py_replace [nl] '' '' (py_slice program_text 0 50) @ ''...'' = topic_label program_text"
  using py_slice_prefix [of program_text 50]
  by (simp add: py_replace_char topic_label_def nl_def)

lemma decks_flash_redirect: "decks (snd (flash_redirect m st)) = decks st"
  by (simp add: flash_redirect_def)

lemma decks_quiz_path: "decks (snd (quiz_path svc program_text count st)) = decks st"
  by (simp add: quiz_path_def flash_redirect_def split: prod.split sum.split)

lemma decks_flashcards_path:
  "decks (snd (flashcards_path svc storable program_text count st)) =
     (case fst (generate_flashcards_logic svc program_text count (sent st)) of
        Inl e \<Rightarrow> decks st
      | Inr cards \<Rightarrow> decks st @ [created_deck st program_text])"
proof (cases "generate_flashcards_logic svc program_text count (sent st)")
  case (Pair r posted)
  show ?thesis
  proof (cases r)
    case (Inl e)
    with Pair show ?thesis
      by (simp add: flashcards_path_def flash_redirect_def)
  next
    case (Inr cards)
    with Pair show ?thesis
      unfolding flashcards_path_def Let_def title_label
      by (simp add: flash_redirect_def created_deck_def split: sum.split)
  qed
qed

lemma decks_generate_quiz:
  "decks (snd (generate_quiz svc storable form st)) =
     (if flashcards_request svc form st
      then decks st @ [created_deck st (py_strip (form_get form ''program_text'' ''''))]
      else decks st)"
proof -
  let ?text = "py_strip (form_get form ''program_text'' '''')"
  let ?num = "py_strip (form_get form ''num_questions'' '''')"
  show ?thesis
  proof (cases "?text = [] \<or> \<not> py_isdigit ?num")
    case True
    then show ?thesis
      by (auto simp: generate_quiz_def flashcards_request_def Let_def decks_flash_redirect)
  next
    case ok: False
    show ?thesis
    proof (cases "py_int ?num")
      case (Inl e)
      with ok show ?thesis
        by (simp add: generate_quiz_def flashcards_request_def Let_def)
    next
      case (Inr count)
      show ?thesis
      proof (cases "count \<le> 0 \<or> count > 50")
        case True
        with ok Inr show ?thesis
          by (auto simp: generate_quiz_def flashcards_request_def Let_def decks_flash_redirect)
      next
        case range: False
        show ?thesis
        proof (cases "form_get form ''action'' ''quiz'' = ''flashcards''")
          case True
          with ok Inr range show ?thesis
            by (simp add: generate_quiz_def flashcards_request_def Let_def
                decks_flashcards_path split: sum.split)
        next
          case False
          with ok Inr range show ?thesis
            by (simp add: generate_quiz_def flashcards_request_def Let_def decks_quiz_path)
        qed
      qed
    qed
  qed
qed

text \<open>
  Claim C9. The source text is the stripped \<open>program_text\<close> field. A request leaves the
  decks unchanged or adds exactly one, and the topic of an added deck is the first 50
  characters of the source text with every newline replaced by a space, followed by
  \<open>...\<close>; a valid flashcards request whose generation succeeds does add that deck.
\<close>

theorem deck_topic:
  "(decks (snd (generate_quiz svc storable form st)) = decks st \<or>
    (\<exists>d. decks (snd (generate_quiz svc storable form st)) = decks st @ [d] \<and>
       topic d = topic_label (py_strip (form_get form ''program_text'' '''')))) \<and>
   (flashcards_request svc form st \<longrightarrow>
      (\<exists>d. decks (snd (generate_quiz svc storable form st)) = decks st @ [d] \<and>
         topic d = topic_label (py_strip (form_get form ''program_text'' ''''))))"
proof -
  have "topic (created_deck st (py_strip (form_get form ''program_text'' '''')))
      = topic_label (py_strip (form_get form ''program_text'' ''''))"
    by (simp add: created_deck_def)
  then show ?thesis
    unfolding decks_generate_quiz by (cases "flashcards_request svc form st") simp_all
qed

lemma notes_request:
  "flashcards_request (fixed_service ''[]'' (JArr [])) notes_form (pending [])"
  by code_simp

text \<open>
  The hypothesis of C9 discharged for a two-line source text.
\<close>

theorem deck_topic_witness:
  "flashcards_request (fixed_service ''[]'' (JArr [])) notes_form (pending []) \<and>
   (\<exists>d. decks (snd (generate_quiz (fixed_service ''[]'' (JArr [])) (\<lambda>v. True) notes_form
             (pending []))) = decks (pending []) @ [d] \<and>
      topic d = topic_label (py_strip (form_get notes_form ''program_text'' ''''))) \<and>
   topic_label (py_strip (form_get notes_form ''program_text'' '''')) = ''line one line two...''"
proof -
  have l: "topic_label (py_strip (form_get notes_form ''program_text'' ''''))
      = ''line one line two...''"
    by code_simp
  from deck_topic [of "fixed_service ''[]'' (JArr [])" "\<lambda>v. True" notes_form "pending []"]
  have "flashcards_request (fixed_service ''[]'' (JArr [])) notes_form (pending []) \<longrightarrow>
      (\<exists>d. decks (snd (generate_quiz (fixed_service ''[]'' (JArr [])) (\<lambda>v. True) notes_form
             (pending []))) = decks (pending []) @ [d] \<and>
      topic d = topic_label (py_strip (form_get notes_form ''program_text'' '''')))"
    by (rule conjunct2)
  from this notes_request
  have "\<exists>d. decks (snd (generate_quiz (fixed_service ''[]'' (JArr [])) (\<lambda>v. True) notes_form
             (pending []))) = decks (pending []) @ [d] \<and>
      topic d = topic_label (py_strip (form_get notes_form ''program_text'' ''''))"
    by (rule mp)
  with notes_request l show ?thesis
    by blast
qed

end
